theory Spec2Isabelle
  imports Complex_Main
begin

section \<open>Python values, exceptions and float arithmetic\<close>

text \<open>
  The operators of \<^verbatim>\<open>SpeedExtractor.py\<close> are embedded as functions on explicit state.
  A Python exception is a value: every function that can raise returns
  \<open>py_error + 'a\<close>, with \<open>Inl\<close> the exception that propagates.
\<close>

datatype py_error =
    ZeroDivisionError
  | ValueError
  | OverflowError
  | IndexError
  | AttributeError
  | RuntimeError

definition ebind :: "py_error + 'a \<Rightarrow> ('a \<Rightarrow> py_error + 'b) \<Rightarrow> py_error + 'b" where
  "ebind m f = (case m of Inl e \<Rightarrow> Inl e | Inr x \<Rightarrow> f x)"

text \<open>
  A list comprehension whose element expression can raise: the elements are computed
  left to right and the first exception ends the comprehension.
\<close>

fun comprehension :: "('a \<Rightarrow> py_error + 'b) \<Rightarrow> 'a list \<Rightarrow> py_error + 'b list" where
  "comprehension f [] = Inr []"
| "comprehension f (x # xs) =
     (case f x of
        Inl e \<Rightarrow> Inl e
      | Inr y \<Rightarrow> (case comprehension f xs of Inl e \<Rightarrow> Inl e | Inr ys \<Rightarrow> Inr (y # ys)))"

text \<open>
  Python's \<^verbatim>\<open>float\<close> is not fixed to a HOL type. The arithmetic and the
  conversions the program uses are a parameter: a record of the operations, over any
  carrier \<open>'f\<close>. An operation that
  can raise in Python returns a sum. Every theorem about the program holds for every
  such record, so also for IEEE double arithmetic.

  \<^item> \<open>f_sub\<close>, \<open>f_add\<close>: \<^verbatim>\<open>a - b\<close>, \<^verbatim>\<open>a + b\<close> on floats;
  \<^item> \<open>f_sqr\<close>: \<^verbatim>\<open>a**2\<close> (OverflowError when out of range);
  \<^item> \<open>f_sqrt\<close>: \<^verbatim>\<open>math.sqrt(a)\<close> (ValueError on a negative argument);
  \<^item> \<open>f_int_div\<close>: \<^verbatim>\<open>m / n\<close> on integers with \<open>n \<noteq> 0\<close> (OverflowError when
    the quotient is too large for a float);
  \<^item> \<open>f_div\<close>: \<^verbatim>\<open>a / b\<close> on floats (ZeroDivisionError when \<open>b\<close> is zero);
  \<^item> \<open>f_mul_int\<close>: \<^verbatim>\<open>a * n\<close> with an integer \<open>n\<close>;
  \<^item> \<open>f_round\<close>: \<^verbatim>\<open>round(a)\<close> (OverflowError on an infinity, ValueError on NaN);
  \<^item> \<open>f_trunc\<close>: \<^verbatim>\<open>int(a)\<close> (the same exceptions);
  \<^item> \<open>f_of_str\<close>: \<^verbatim>\<open>float(s)\<close> on a string (ValueError when it is no number);
  \<^item> \<open>int_of_str\<close>: \<^verbatim>\<open>int(s)\<close> on a string (ValueError when it is no integer
    literal).
\<close>

record 'f py_ops =
  f_sub :: "'f \<Rightarrow> 'f \<Rightarrow> 'f"
  f_add :: "'f \<Rightarrow> 'f \<Rightarrow> 'f"
  f_sqr :: "'f \<Rightarrow> py_error + 'f"
  f_sqrt :: "'f \<Rightarrow> py_error + 'f"
  f_int_div :: "int \<Rightarrow> int \<Rightarrow> py_error + 'f"
  f_div :: "'f \<Rightarrow> 'f \<Rightarrow> py_error + 'f"
  f_mul_int :: "'f \<Rightarrow> int \<Rightarrow> 'f"
  f_round :: "'f \<Rightarrow> py_error + int"
  f_trunc :: "'f \<Rightarrow> py_error + int"
  f_of_str :: "string \<Rightarrow> py_error + 'f"
  int_of_str :: "string \<Rightarrow> py_error + int"

text \<open>\<^verbatim>\<open>m / n\<close> on two integers: division by zero raises before any float exists.\<close>

definition int_truediv :: "'f py_ops \<Rightarrow> int \<Rightarrow> int \<Rightarrow> py_error + 'f" where
  "int_truediv ops m n = (if n = 0 then Inl ZeroDivisionError else f_int_div ops m n)"

text \<open>
  \<^verbatim>\<open>xs[a:b]\<close>: a negative bound counts from the end, and both bounds are clamped to
  the list.
\<close>

definition slice_bound :: "nat \<Rightarrow> int \<Rightarrow> nat" where
  "slice_bound n k = (if k < 0 then nat (max 0 (k + int n)) else min (nat k) n)"

definition py_slice :: "'a list \<Rightarrow> int \<Rightarrow> int \<Rightarrow> 'a list" where
  "py_slice xs a b =
     (let lo = slice_bound (length xs) a; hi = slice_bound (length xs) b
      in take (hi - lo) (drop lo xs))"

section \<open>Strings\<close>

text \<open>
  A Python \<^verbatim>\<open>str\<close> is a \<open>string\<close>, a list of characters with code points below
  256. \<^verbatim>\<open>str(n)\<close>, and \<^verbatim>\<open>{n}\<close> in an f-string, write an integer in decimal.
  (The limit of 4300 digits of recent interpreters is not part of the model.)
\<close>

definition digit_char :: "nat \<Rightarrow> char" where
  "digit_char d = char_of (48 + d)"

fun str_of_nat :: "nat \<Rightarrow> string" where
  "str_of_nat n =
     (if n < 10 then [digit_char n] else str_of_nat (n div 10) @ [digit_char (n mod 10)])"

definition str_of_int :: "int \<Rightarrow> string" where
  "str_of_int i = (if i < 0 then CHR ''-'' # str_of_nat (nat (- i)) else str_of_nat (nat i))"

text \<open>
  \<^verbatim>\<open>s.strip()\<close> removes the leading and trailing characters for which
  \<^verbatim>\<open>str.isspace\<close> holds: below 256 these are the code points 9 to 13, 28 to 32, 133
  and 160.
\<close>

definition isspace :: "char \<Rightarrow> bool" where
  "isspace c =
     (let k = (of_char c :: nat)
      in (9 \<le> k \<and> k \<le> 13) \<or> (28 \<le> k \<and> k \<le> 32) \<or> k = 133 \<or> k = 160)"

definition strip :: "string \<Rightarrow> string" where
  "strip s = rev (dropWhile isspace (rev (dropWhile isspace s)))"

text \<open>
  \<^verbatim>\<open>s.split(sep)\<close> with a separator of one character: the pieces between the
  separators, empty pieces included, so the empty string gives one empty piece.
\<close>

fun split :: "char \<Rightarrow> string \<Rightarrow> string list" where
  "split sep [] = [[]]"
| "split sep (c # cs) =
     (if c = sep then [] # split sep cs
      else (case split sep cs of [] \<Rightarrow> [[c]] | piece # pieces \<Rightarrow> (c # piece) # pieces))"

definition newline :: char where
  "newline = CHR 0x0A"

definition comma :: char where
  "comma = CHR '',''"

section \<open>Exact arithmetic\<close>

text \<open>
  One instance of the operations, used to run the model on concrete inputs: the real
  numbers, where no operation rounds or overflows. It agrees with double arithmetic on
  every computation whose intermediate values are doubles. \<^verbatim>\<open>round\<close> rounds a half
  to the even neighbour, as Python does. The two conversions from strings read decimal
  integer literals only (an optional minus sign and digits), which is what the
  program writes; every other string is rejected in this instance.
\<close>

definition round_half_even :: "real \<Rightarrow> int" where
  "round_half_even x =
     (let f = \<lfloor>x\<rfloor>; d = x - of_int f
      in if d < 1 / 2 then f else if 1 / 2 < d then f + 1 else if even f then f else f + 1)"

definition digit_val :: "char \<Rightarrow> nat option" where
  "digit_val c =
     (let k = (of_char c :: nat) in if 48 \<le> k \<and> k \<le> 57 then Some (k - 48) else None)"

fun nat_of_digits :: "nat \<Rightarrow> string \<Rightarrow> nat option" where
  "nat_of_digits acc [] = Some acc"
| "nat_of_digits acc (c # cs) =
     (case digit_val c of None \<Rightarrow> None | Some d \<Rightarrow> nat_of_digits (10 * acc + d) cs)"

definition dec_of_str :: "string \<Rightarrow> int option" where
  "dec_of_str s =
     (case s of
        [] \<Rightarrow> None
      | c # cs \<Rightarrow>
          if c = CHR ''-'' then
            (if cs = [] then None else map_option (\<lambda>n. - int n) (nat_of_digits 0 cs))
          else map_option int (nat_of_digits 0 s))"

definition exact_arith :: "real py_ops" where
  "exact_arith = \<lparr>
     f_sub = (\<lambda>a b. a - b),
     f_add = (\<lambda>a b. a + b),
     f_sqr = (\<lambda>a. Inr (a * a)),
     f_sqrt = (\<lambda>a. if a < 0 then Inl ValueError else Inr (sqrt a)),
     f_int_div = (\<lambda>m n. Inr (real_of_int m / real_of_int n)),
     f_div = (\<lambda>a b. if b = 0 then Inl ZeroDivisionError else Inr (a / b)),
     f_mul_int = (\<lambda>a n. a * real_of_int n),
     f_round = (\<lambda>a. Inr (round_half_even a)),
     f_trunc = (\<lambda>a. Inr (if 0 \<le> a then \<lfloor>a\<rfloor> else \<lceil>a\<rceil>)),
     f_of_str = (\<lambda>s. case dec_of_str s of None \<Rightarrow> Inl ValueError | Some n \<Rightarrow> Inr (real_of_int n)),
     int_of_str = (\<lambda>s. case dec_of_str s of None \<Rightarrow> Inl ValueError | Some n \<Rightarrow> Inr n) \<rparr>"

section \<open>The speed records\<close>

text \<open>A record of the series is the tuple \<^verbatim>\<open>(frame_start, frame_end, speed)\<close>.\<close>

type_synonym speed_record = "int \<times> int \<times> int"

definition frame_start_of :: "speed_record \<Rightarrow> int" where
  "frame_start_of r = fst r"

definition frame_end_of :: "speed_record \<Rightarrow> int" where
  "frame_end_of r = fst (snd r)"

definition speed_of :: "speed_record \<Rightarrow> int" where
  "speed_of r = snd (snd r)"

section \<open>Get Speed: the moving average\<close>

text \<open>
  Lines 99 to 107. For the record at index \<open>i\<close>:
  \<^verbatim>\<open>
    window_start = max(0, i - props.averaging_window // 2)
    window_end = min(len(speed_data), i + props.averaging_window // 2 + 1)
    window = speed_data[window_start:window_end]
    avg_speed = sum([d[2] for d in window]) / len(window)
    averaged_data.append((speed_data[i][0], speed_data[i][1], round(avg_speed)))
  \<close>
  Python's \<^verbatim>\<open>//\<close> on integers is floor division, as \<open>div\<close> on \<open>int\<close> is.
\<close>

definition window_at :: "int \<Rightarrow> speed_record list \<Rightarrow> nat \<Rightarrow> speed_record list" where
  "window_at w speed_data i =
     (let window_start = max 0 (int i - w div 2);
          window_end = min (int (length speed_data)) (int i + w div 2 + 1)
      in py_slice speed_data window_start window_end)"

definition averaged_record ::
  "'f py_ops \<Rightarrow> int \<Rightarrow> speed_record list \<Rightarrow> nat \<Rightarrow> py_error + speed_record" where
  "averaged_record ops w speed_data i =
     (let window = window_at w speed_data i
      in ebind (int_truediv ops (sum_list (map speed_of window)) (int (length window)))
           (\<lambda>avg_speed. ebind (f_round ops avg_speed)
              (\<lambda>s. Inr (frame_start_of (speed_data ! i), frame_end_of (speed_data ! i), s))))"

text \<open>
  The loop \<^verbatim>\<open>for i in range(len(speed_data))\<close>, with \<open>averaged_data\<close> as the
  accumulator. The index is always within the list.
\<close>

fun averaging_loop ::
  "'f py_ops \<Rightarrow> int \<Rightarrow> speed_record list \<Rightarrow> nat list \<Rightarrow> speed_record list
   \<Rightarrow> py_error + speed_record list" where
  "averaging_loop ops w speed_data [] averaged_data = Inr averaged_data"
| "averaging_loop ops w speed_data (i # rest) averaged_data =
     (case averaged_record ops w speed_data i of
        Inl e \<Rightarrow> Inl e
      | Inr r \<Rightarrow> averaging_loop ops w speed_data rest (averaged_data @ [r]))"

definition averaging_pass ::
  "'f py_ops \<Rightarrow> int \<Rightarrow> speed_record list \<Rightarrow> py_error + speed_record list" where
  "averaging_pass ops w speed_data =
     averaging_loop ops w speed_data [0..<length speed_data] []"

section \<open>Get Speed: the configuration and the host\<close>

text \<open>\<open>SpeedDataProcessorProperties\<close>, as \<^verbatim>\<open>context.scene.speed_data_processor\<close>.\<close>

record props =
  text_block_name :: string
  apply_averaging :: bool
  averaging_window :: int
  use_interval :: bool
  interval :: int
  text_before :: string
  text_after :: string

text \<open>The defaults the property group declares.\<close>

definition default_props :: props where
  "default_props = \<lparr>
     text_block_name = ''speed_data'',
     apply_averaging = False,
     averaging_window = 5,
     use_interval = False,
     interval = 1,
     text_before = [],
     text_after = [] \<rparr>"

text \<open>Line 71: \<^verbatim>\<open>interval = props.interval if props.use_interval else 1\<close>.\<close>

definition stride :: "props \<Rightarrow> int" where
  "stride p = (if use_interval p then interval p else 1)"

text \<open>
  What the operators read and write of the scene: the frame range, the frame rate
  \<^verbatim>\<open>scene.render.fps\<close>, and the current frame, which \<^verbatim>\<open>scene.frame_set\<close> moves.
\<close>

record scene =
  frame_start :: int
  frame_end :: int
  fps :: int
  frame_current :: int

text \<open>
  \<^verbatim>\<open>bpy.data.texts\<close> maps the name of a text block to its content. The selected object
  is its animated location: the pair \<^verbatim>\<open>(location.x, location.y)\<close> the object has
  once the scene is set to a frame. \<^verbatim>\<open>context.object\<close> is \<open>None\<close> when nothing is
  selected.
\<close>

type_synonym texts = "string \<rightharpoonup> string"

type_synonym 'f located = "int \<Rightarrow> 'f \<times> 'f"

datatype report = ERROR string | INFO string

datatype outcome = FINISHED | CANCELLED | RAISED py_error

section \<open>Get Speed: the sampling pass\<close>

text \<open>
  \<^verbatim>\<open>range(start, stop, step)\<close>: ValueError for a step of zero, an ascending sequence
  below \<open>stop\<close> for a positive step, a descending one above \<open>stop\<close> for a negative step.
\<close>

function range_up :: "int \<Rightarrow> int \<Rightarrow> int \<Rightarrow> int list" where
  "range_up i stop step =
     (if 0 < step \<and> i < stop then i # range_up (i + step) stop step else [])"
  by pat_completeness auto
termination
  by (relation "measure (\<lambda>(i, stop, step). nat (stop - i))") auto

function range_down :: "int \<Rightarrow> int \<Rightarrow> int \<Rightarrow> int list" where
  "range_down i stop step =
     (if step < 0 \<and> stop < i then i # range_down (i + step) stop step else [])"
  by pat_completeness auto
termination
  by (relation "measure (\<lambda>(i, stop, step). nat (i - stop))") auto

definition py_range :: "int \<Rightarrow> int \<Rightarrow> int \<Rightarrow> py_error + int list" where
  "py_range start stop step =
     (if step = 0 then Inl ValueError
      else if 0 < step then Inr (range_up start stop step)
      else Inr (range_down start stop step))"

text \<open>
  Lines 88 to 95, the speed between two sampled locations:
  \<^verbatim>\<open>
    dx = location.x - prev_location.x
    dy = location.y - prev_location.y
    horizontal_distance = math.sqrt(dx**2 + dy**2)
    time = interval / scene.render.fps
    speed = (horizontal_distance / time) * 100
    ... round(speed)
  \<close>
\<close>

definition measure_speed ::
  "'f py_ops \<Rightarrow> 'f \<times> 'f \<Rightarrow> 'f \<times> 'f \<Rightarrow> int \<Rightarrow> int \<Rightarrow> py_error + int" where
  "measure_speed ops prev_location location ivl rate =
     (let dx = f_sub ops (fst location) (fst prev_location);
          dy = f_sub ops (snd location) (snd prev_location)
      in ebind (f_sqr ops dx) (\<lambda>dx2.
         ebind (f_sqr ops dy) (\<lambda>dy2.
         ebind (f_sqrt ops (f_add ops dx2 dy2)) (\<lambda>horizontal_distance.
         ebind (int_truediv ops ivl rate) (\<lambda>time.
         ebind (f_div ops horizontal_distance time) (\<lambda>quotient.
         f_round ops (f_mul_int ops quotient 100)))))))"

text \<open>
  Lines 81 to 97, the loop over the frames of the range. The loop state is
  \<open>prev_location\<close>, \<open>speed_data\<close> and the scene's current frame; an exception leaves
  the scene at the frame where it was raised.
\<close>

fun sampling_loop ::
  "'f py_ops \<Rightarrow> 'f located \<Rightarrow> int \<Rightarrow> int \<Rightarrow> int list \<Rightarrow> ('f \<times> 'f) option
   \<Rightarrow> speed_record list \<Rightarrow> int \<Rightarrow> int \<times> (py_error + speed_record list)" where
  "sampling_loop ops obj rate ivl [] prev_location speed_data cur = (cur, Inr speed_data)"
| "sampling_loop ops obj rate ivl (frame # rest) prev_location speed_data cur =
     (let location = obj frame
      in case prev_location of
           None \<Rightarrow> sampling_loop ops obj rate ivl rest (Some location) speed_data frame
         | Some prev \<Rightarrow>
             (case measure_speed ops prev location ivl rate of
                Inl e \<Rightarrow> (frame, Inl e)
              | Inr speed \<Rightarrow>
                  sampling_loop ops obj rate ivl rest (Some location)
                    (speed_data @ [(frame - ivl, frame, speed)]) frame))"

definition sampling_pass ::
  "'f py_ops \<Rightarrow> 'f located \<Rightarrow> int \<Rightarrow> int \<Rightarrow> int \<Rightarrow> int \<Rightarrow> int
   \<Rightarrow> int \<times> (py_error + speed_record list)" where
  "sampling_pass ops obj rate start_frame end_frame ivl cur =
     (case py_range start_frame (end_frame + 1) ivl of
        Inl e \<Rightarrow> (cur, Inl e)
      | Inr frames \<Rightarrow> sampling_loop ops obj rate ivl frames None [] cur)"

section \<open>Get Speed: the operator\<close>

text \<open>
  Lines 109 and 110: each record is written as the line
  \<^verbatim>\<open>f"{frame_start},{frame_end},{speed}\n"\<close>; \<^verbatim>\<open>text_block.write\<close> appends to
  the block.
\<close>

definition record_line :: "speed_record \<Rightarrow> string" where
  "record_line r =
     str_of_int (frame_start_of r) @ [comma] @ str_of_int (frame_end_of r) @ [comma]
       @ str_of_int (speed_of r) @ [newline]"

definition write_records :: "speed_record list \<Rightarrow> string \<Rightarrow> string" where
  "write_records speed_data block = fold (\<lambda>r written. written @ record_line r) speed_data block"

text \<open>
  \<open>OBJECT_OT_GetSpeed.execute\<close>. The result is the returned status (or the exception
  that propagated), the reports, the scene and the text blocks. Before the frames are
  sampled, the block of the configured name is emptied when there is one (lines 74 to
  76); otherwise \<^verbatim>\<open>bpy.data.texts.new(name=...)\<close> makes an empty block (line 78). The
  name of a new block is the host's choice, not the operator's: the requested name when
  the host accepts it, another one when the request is empty or too long. That choice
  is the parameter \<open>new_name\<close>, from the blocks there are and the requested name
  (on the host it is a name no block has yet).
  \<open>text_block\<close> is the name of the block the operator then writes to.
\<close>

definition GetSpeed_execute ::
  "'f py_ops \<Rightarrow> (texts \<Rightarrow> string \<Rightarrow> string) \<Rightarrow> props \<Rightarrow> 'f located option \<Rightarrow> scene
   \<Rightarrow> texts \<Rightarrow> outcome \<times> report list \<times> scene \<times> texts" where
  "GetSpeed_execute ops new_name p context_object sc blocks =
     (case context_object of
        None \<Rightarrow> (CANCELLED, [ERROR ''No object selected''], sc, blocks)
      | Some obj \<Rightarrow>
          (let ivl = stride p;
               text_block = (if text_block_name p \<in> dom blocks
                             then text_block_name p
                             else new_name blocks (text_block_name p));
               blocks1 = blocks(text_block \<mapsto> [])
           in case sampling_pass ops obj (fps sc) (frame_start sc) (frame_end sc) ivl
                     (frame_current sc) of
                (cur, Inl e) \<Rightarrow> (RAISED e, [], sc\<lparr>frame_current := cur\<rparr>, blocks1)
              | (cur, Inr speed_data) \<Rightarrow>
                  (case (if apply_averaging p
                         then averaging_pass ops (averaging_window p) speed_data
                         else Inr speed_data) of
                     Inl e \<Rightarrow> (RAISED e, [], sc\<lparr>frame_current := cur\<rparr>, blocks1)
                   | Inr final_data \<Rightarrow>
                       (FINISHED, [INFO ''Speed data recorded''], sc\<lparr>frame_current := cur\<rparr>,
                        blocks1(text_block \<mapsto> write_records final_data [])))))"

section \<open>Reading the series\<close>

text \<open>
  Every reader starts from \<^verbatim>\<open>speed_data_text.strip().split('\n')\<close> and splits each line
  at the commas.
\<close>

definition series_lines :: "string \<Rightarrow> string list" where
  "series_lines speed_data_text = split newline (strip speed_data_text)"

definition frame_data_of :: "string \<Rightarrow> string list list" where
  "frame_data_of speed_data_text = map (split comma) (series_lines speed_data_text)"

text \<open>\<^verbatim>\<open>data[k]\<close> on a list, for an index that is not negative.\<close>

definition item :: "'a list \<Rightarrow> nat \<Rightarrow> py_error + 'a" where
  "item xs k = (if k < length xs then Inr (xs ! k) else Inl IndexError)"

text \<open>
  Lines 142 and 143 (and 206 and 207): first every frame number, then every speed.
  \<^verbatim>\<open>
    frame_numbers = [int(data[1]) for data in frame_data]
    speeds = [float(data[2]) for data in frame_data]
  \<close>
\<close>

definition frame_numbers_of :: "'f py_ops \<Rightarrow> string list list \<Rightarrow> py_error + int list" where
  "frame_numbers_of ops frame_data =
     comprehension (\<lambda>data. ebind (item data 1) (int_of_str ops)) frame_data"

definition speeds_of :: "'f py_ops \<Rightarrow> string list list \<Rightarrow> py_error + 'f list" where
  "speeds_of ops frame_data =
     comprehension (\<lambda>data. ebind (item data 2) (f_of_str ops)) frame_data"

definition graph_series :: "'f py_ops \<Rightarrow> string \<Rightarrow> py_error + (int list \<times> 'f list)" where
  "graph_series ops speed_data_text =
     ebind (frame_numbers_of ops (frame_data_of speed_data_text)) (\<lambda>frame_numbers.
     ebind (speeds_of ops (frame_data_of speed_data_text)) (\<lambda>speeds.
     Inr (frame_numbers, speeds)))"

text \<open>
  Line 268, \<^verbatim>\<open>frame_start, frame_end, speed = map(float, line.split(','))\<close>. The
  assignment draws three values from the lazy \<^verbatim>\<open>map\<close> and then asks for a fourth:
  the fields are converted in order, at most four of them, the first failing
  conversion raises, and a number of fields other than three is a ValueError.
\<close>

definition unpack3 :: "'f py_ops \<Rightarrow> string list \<Rightarrow> py_error + ('f \<times> 'f \<times> 'f)" where
  "unpack3 ops flds =
     (case comprehension (f_of_str ops) (take 4 flds) of
        Inl e \<Rightarrow> Inl e
      | Inr [a, b, c] \<Rightarrow> Inr (a, b, c)
      | Inr _ \<Rightarrow> Inl ValueError)"

text \<open>Lines 268 to 270: the two frames are truncated to integers.\<close>

definition parse_fields :: "'f py_ops \<Rightarrow> string \<Rightarrow> py_error + (int \<times> int \<times> 'f)" where
  "parse_fields ops line =
     ebind (unpack3 ops (split comma line)) (\<lambda>(a, b, speed).
     ebind (f_trunc ops a) (\<lambda>fs.
     ebind (f_trunc ops b) (\<lambda>fe.
     Inr (fs, fe, speed))))"

text \<open>
  Lines 271 and 272: \<^verbatim>\<open>for frame in range(frame_start, frame_end + 1):
  speed_data[frame] = round(speed)\<close>. The speed is rounded once for every frame of the
  range, so not at all when the range is empty.
\<close>

fun store_frames ::
  "'f py_ops \<Rightarrow> 'f \<Rightarrow> int list \<Rightarrow> (int \<rightharpoonup> int) \<Rightarrow> py_error + (int \<rightharpoonup> int)" where
  "store_frames ops speed [] speed_data = Inr speed_data"
| "store_frames ops speed (frame # rest) speed_data =
     (case f_round ops speed of
        Inl e \<Rightarrow> Inl e
      | Inr s \<Rightarrow> store_frames ops speed rest (speed_data(frame \<mapsto> s)))"

text \<open>The loop over the lines, lines 267 to 272.\<close>

fun parse_lines ::
  "'f py_ops \<Rightarrow> string list \<Rightarrow> (int \<rightharpoonup> int) \<Rightarrow> py_error + (int \<rightharpoonup> int)" where
  "parse_lines ops [] speed_data = Inr speed_data"
| "parse_lines ops (line # rest) speed_data =
     (case parse_fields ops line of
        Inl e \<Rightarrow> Inl e
      | Inr (fs, fe, speed) \<Rightarrow>
          (case store_frames ops speed (range_up fs (fe + 1) 1) speed_data of
             Inl e \<Rightarrow> Inl e
           | Inr stored \<Rightarrow> parse_lines ops rest stored))"

text \<open>
  \<open>parse_speed_data\<close>, lines 263 to 275. A missing text block prints a message and
  gives the empty dictionary.
\<close>

definition parse_speed_data :: "'f py_ops \<Rightarrow> texts \<Rightarrow> string \<Rightarrow> py_error + (int \<rightharpoonup> int)" where
  "parse_speed_data ops blocks name =
     (case blocks name of
        Some speed_data_text \<Rightarrow> parse_lines ops (series_lines speed_data_text) Map.empty
      | None \<Rightarrow> Inr Map.empty)"

text \<open>Line 282, \<^verbatim>\<open>speed_data.get(current_frame, 0)\<close>.\<close>

definition get_speed :: "(int \<rightharpoonup> int) \<Rightarrow> int \<Rightarrow> int" where
  "get_speed speed_data current_frame =
     (case speed_data current_frame of None \<Rightarrow> 0 | Some s \<Rightarrow> s)"

section \<open>Display Speed\<close>

text \<open>
  The text object \<open>SpeedText\<close>: its displayed string, its size and its alignment.
  \<^verbatim>\<open>bpy.data.objects\<close> maps names to objects; only text objects matter here.
\<close>

record text_object =
  body :: string
  text_size :: int
  align_x :: string

type_synonym objects = "string \<rightharpoonup> text_object"

text \<open>
  A handler of \<^verbatim>\<open>bpy.app.handlers.frame_change_post\<close> is either the closure
  \<open>update_text\<close> of this operator, which holds the properties and the dictionary it
  was made with, or a callable some other party registered. What the closure does when
  the host calls it is not part of the model, but for its lookup \<open>get_speed\<close>.
\<close>

datatype 'h handler = Foreign 'h | Update_text props "int \<rightharpoonup> int"

text \<open>
  \<open>OBJECT_OT_DisplaySpeed.execute\<close>: the text object is made when it is missing, the
  text block is read, and only then the handler list is cleared and the new callback
  appended (lines 292 and 293). The operators \<^verbatim>\<open>bpy.ops.object.text_add\<close> and
  \<^verbatim>\<open>origin_set\<close> are taken to succeed.
\<close>

definition DisplaySpeed_execute ::
  "'f py_ops \<Rightarrow> props \<Rightarrow> texts \<Rightarrow> objects \<Rightarrow> 'h handler list
   \<Rightarrow> outcome \<times> report list \<times> objects \<times> 'h handler list" where
  "DisplaySpeed_execute ops p blocks objs handlers =
     (let objs1 =
            (if ''SpeedText'' \<notin> dom objs
             then objs(''SpeedText'' \<mapsto>
                    \<lparr>body = ''0'', text_size = 1, align_x = ''CENTER''\<rparr>)
             else objs)
      in case parse_speed_data ops blocks (text_block_name p) of
           Inl e \<Rightarrow> (RAISED e, [], objs1, handlers)
         | Inr speed_data \<Rightarrow>
             (FINISHED, [INFO ''Text object created and updated with speed data''], objs1,
              [] @ [Update_text p speed_data]))"

section \<open>Transfer to Shader Editor and to GeoNodes\<close>

text \<open>
  The node graph belongs to the host. What the operators do to it is the sequence of
  the calls they make, in order; what they read of it is whether it has animation
  data, whether that has an action (and its name), and the name the host gives the new
  node when it is asked for a name (the host makes names unique within a graph).
\<close>

record node_graph =
  animation_data :: "string option option"
  named :: "string \<Rightarrow> string"

datatype action_ref = Existing_action string | New_action string

datatype 'f host_call =
    Use_nodes
  | is_Nodes_new: Nodes_new string
  | Node_name string
  | Node_label string
  | Node_location int int
  | Animation_data_create
  | is_Actions_new: Actions_new string
  | Assign_action
  | is_Fcurves_new: Fcurves_new action_ref string
  | is_Keyframe_insert: Keyframe_insert int 'f
  | is_Keyframe_interpolation: Keyframe_interpolation string

text \<open>
  Lines 145 to 163 (and 209 to 227), with the name of the action a missing action is
  made with. \<^verbatim>\<open>max(speeds)\<close> raises ValueError on an empty list; the two
  \<^verbatim>\<open>print\<close> calls are not part of the log.
\<close>

definition data_path :: "string \<Rightarrow> string" where
  "data_path node_name =
     ''nodes['' @ [CHR 0x22] @ node_name @ [CHR 0x22] @ ''].outputs[0].default_value''"

definition write_curve ::
  "string \<Rightarrow> node_graph \<Rightarrow> int list \<Rightarrow> 'f list \<Rightarrow> 'f host_call list
   \<Rightarrow> (py_error + unit) \<times> 'f host_call list" where
  "write_curve action_name graph frame_numbers speeds calls =
     (let calls1 = calls @ [Nodes_new ''ShaderNodeValue'', Node_name ''Speed Value'',
                            Node_label ''Speed Value'', Node_location 0 0];
          node_name = named graph ''Speed Value'';
          calls2 = (if animation_data graph = None
                    then calls1 @ [Animation_data_create] else calls1);
          action = (case animation_data graph of Some (Some a) \<Rightarrow> Some a | _ \<Rightarrow> None);
          calls3 = (if action = None
                    then calls2 @ [Actions_new action_name, Assign_action] else calls2);
          action1 = (case action of Some a \<Rightarrow> Existing_action a | None \<Rightarrow> New_action action_name);
          calls4 = calls3 @ [Fcurves_new action1 (data_path node_name)];
          calls5 = fold (\<lambda>(frame, speed) log.
                      log @ [Keyframe_insert frame speed, Keyframe_interpolation ''CONSTANT''])
                    (zip frame_numbers speeds) calls4
      in if speeds = [] then (Inl ValueError, calls5) else (Inr (), calls5))"

text \<open>
  \<open>OBJECT_OT_TransferToShaderEditor.execute\<close>. The active object is its
  \<open>active_material\<close>, a node graph or \<open>None\<close>; \<^verbatim>\<open>context.object\<close> itself can be
  \<open>None\<close>, and then \<^verbatim>\<open>obj.active_material\<close> raises.
\<close>

definition no_text_block :: "string \<Rightarrow> string" where
  "no_text_block name = ''No text block named '' @ [CHR 0x27] @ name @ [CHR 0x27] @ '' found''"

definition TransferToShaderEditor_execute ::
  "'f py_ops \<Rightarrow> props \<Rightarrow> texts \<Rightarrow> node_graph option option
   \<Rightarrow> outcome \<times> report list \<times> 'f host_call list" where
  "TransferToShaderEditor_execute ops p blocks context_object =
     (case blocks (text_block_name p) of
        None \<Rightarrow> (CANCELLED, [ERROR (no_text_block (text_block_name p))], [])
      | Some speed_data_text \<Rightarrow>
          (let frame_data = frame_data_of speed_data_text
           in case context_object of
                None \<Rightarrow> (RAISED AttributeError, [], [])
              | Some None \<Rightarrow> (CANCELLED, [ERROR ''Active object has no material''], [])
              | Some (Some material) \<Rightarrow>
                  (case frame_numbers_of ops frame_data of
                     Inl e \<Rightarrow> (RAISED e, [], [Use_nodes])
                   | Inr frame_numbers \<Rightarrow>
                       (case speeds_of ops frame_data of
                          Inl e \<Rightarrow> (RAISED e, [], [Use_nodes])
                        | Inr speeds \<Rightarrow>
                            (case write_curve ''SpeedAction'' material frame_numbers speeds
                                    [Use_nodes] of
                               (Inl e, calls) \<Rightarrow> (RAISED e, [], calls)
                             | (Inr _, calls) \<Rightarrow>
                                 (FINISHED, [INFO ''Speed data transferred to Shader Editor''],
                                  calls))))))"

text \<open>
  \<open>OBJECT_OT_TransferToGeoNodes.execute\<close>. The active object is the list of its
  modifiers, each with its type and its node group (which can be \<open>None\<close>); the first
  modifier of type \<open>NODES\<close> is taken.
\<close>

definition first_nodes_modifier ::
  "(string \<times> node_graph option) list \<Rightarrow> (string \<times> node_graph option) option" where
  "first_nodes_modifier modifiers = find (\<lambda>m. fst m = ''NODES'') modifiers"

definition TransferToGeoNodes_execute ::
  "'f py_ops \<Rightarrow> props \<Rightarrow> texts \<Rightarrow> (string \<times> node_graph option) list option
   \<Rightarrow> outcome \<times> report list \<times> 'f host_call list" where
  "TransferToGeoNodes_execute ops p blocks context_object =
     (case blocks (text_block_name p) of
        None \<Rightarrow> (CANCELLED, [ERROR (no_text_block (text_block_name p))], [])
      | Some speed_data_text \<Rightarrow>
          (let frame_data = frame_data_of speed_data_text
           in case context_object of
                None \<Rightarrow> (RAISED AttributeError, [], [])
              | Some modifiers \<Rightarrow>
                  (case first_nodes_modifier modifiers of
                     None \<Rightarrow>
                       (CANCELLED, [ERROR ''Active object has no Geometry Nodes modifier''], [])
                   | Some (_, None) \<Rightarrow> (RAISED AttributeError, [], [])
                   | Some (_, Some node_group) \<Rightarrow>
                       (case frame_numbers_of ops frame_data of
                          Inl e \<Rightarrow> (RAISED e, [], [])
                        | Inr frame_numbers \<Rightarrow>
                            (case speeds_of ops frame_data of
                               Inl e \<Rightarrow> (RAISED e, [], [])
                             | Inr speeds \<Rightarrow>
                                 (case write_curve ''GeoNodesSpeedAction'' node_group
                                         frame_numbers speeds [] of
                                    (Inl e, calls) \<Rightarrow> (RAISED e, [], calls)
                                  | (Inr _, calls) \<Rightarrow>
                                      (FINISHED,
                                       [INFO ''Speed data transferred to Geometry Nodes''],
                                       calls)))))))"

section \<open>The smoothing pass as the specification words it\<close>

text \<open>
  The specification's smoothing: the speed of a record becomes the rounded mean of the
  speeds in a window around it. \<open>rounded_mean\<close> is \<^verbatim>\<open>round(sum(vals) / len(vals))\<close>.
  \<open>centered_indices h n i\<close> are the indices of a list of length \<open>n\<close> at distance at
  most \<open>h\<close> from \<open>i\<close>. \<open>spec_window left w n i\<close> is a window of exactly \<open>w\<close>
  indices around \<open>i\<close>, cut to the list; for an even \<open>w\<close> no window of that width has
  \<open>i\<close> in its middle, and \<open>left\<close> says on which side the window is longer.
\<close>

definition rounded_mean :: "'f py_ops \<Rightarrow> int list \<Rightarrow> py_error + int" where
  "rounded_mean ops vals =
     ebind (int_truediv ops (sum_list vals) (int (length vals))) (f_round ops)"

definition centered_indices :: "int \<Rightarrow> nat \<Rightarrow> nat \<Rightarrow> nat list" where
  "centered_indices h n i = filter (\<lambda>j. \<bar>int j - int i\<bar> \<le> h) [0..<n]"

definition spec_window :: "bool \<Rightarrow> int \<Rightarrow> nat \<Rightarrow> nat \<Rightarrow> nat list" where
  "spec_window left w n i =
     (let lo = int i - (if left then w div 2 else (w - 1) div 2)
      in filter (\<lambda>j. lo \<le> int j \<and> int j < lo + w) [0..<n])"

definition spec_smoothing ::
  "bool \<Rightarrow> 'f py_ops \<Rightarrow> int \<Rightarrow> speed_record list \<Rightarrow> py_error + speed_record list" where
  "spec_smoothing left ops w xs =
     comprehension
       (\<lambda>i. ebind (rounded_mean ops
                 (map (\<lambda>j. speed_of (xs ! j)) (spec_window left w (length xs) i)))
              (\<lambda>s. Inr (frame_start_of (xs ! i), frame_end_of (xs ! i), s)))
       [0..<length xs]"

section \<open>The sampling pass as the specification words it\<close>

text \<open>
  \<open>arith_frames start end ivl\<close> are the frames \<open>start\<close>, \<open>start + ivl\<close>,
  \<open>start + 2 * ivl\<close>, ... up to \<open>end\<close>. \<open>spec_record\<close> is the record the
  specification gives a sampled frame \<open>f\<close> after the first:
  \<open>(f - ivl, f, speed)\<close>, with the speed measured between the locations at
  \<open>f - ivl\<close> and at \<open>f\<close>.
\<close>

definition arith_frames :: "int \<Rightarrow> int \<Rightarrow> int \<Rightarrow> int list" where
  "arith_frames start_frame end_frame ivl =
     map (\<lambda>k. start_frame + int k * ivl) [0..<nat ((end_frame - start_frame) div ivl + 1)]"

definition spec_record ::
  "'f py_ops \<Rightarrow> 'f located \<Rightarrow> int \<Rightarrow> int \<Rightarrow> int \<Rightarrow> py_error + speed_record" where
  "spec_record ops obj rate ivl f =
     ebind (measure_speed ops (obj (f - ivl)) (obj f) ivl rate)
       (\<lambda>speed. Inr (f - ivl, f, speed))"

section \<open>Serialized records as the specification words them\<close>

text \<open>
  \<open>decimal_fields\<close> are the three decimal strings a record is written as.
\<close>

definition decimal_fields :: "speed_record \<Rightarrow> string list" where
  "decimal_fields r =
     [str_of_int (frame_start_of r), str_of_int (frame_end_of r), str_of_int (speed_of r)]"

section \<open>Failing lines and covered frames as the specification words them\<close>

text \<open>
  A line is \<open>malformed\<close> when it does not split into exactly three comma-separated
  fields or \<^verbatim>\<open>float\<close> fails on one of its fields. A line of three numbers is
  \<open>unstorable\<close> when one of its frames cannot be made an integer, or its speed
  cannot be rounded although its frame range is not empty. The fields of a line are
  \<open>graph_unreadable\<close> when there are fewer than three, or \<^verbatim>\<open>int\<close> fails on the
  second, or \<^verbatim>\<open>float\<close> fails on the third. (\<open>isl\<close> holds of a raised exception.)
\<close>

definition malformed :: "'f py_ops \<Rightarrow> string \<Rightarrow> bool" where
  "malformed ops line \<longleftrightarrow>
     length (split comma line) \<noteq> 3 \<or> (\<exists>fld \<in> set (split comma line). isl (f_of_str ops fld))"

definition unstorable :: "'f py_ops \<Rightarrow> string \<Rightarrow> bool" where
  "unstorable ops line \<longleftrightarrow>
     (case unpack3 ops (split comma line) of
        Inl _ \<Rightarrow> False
      | Inr (a, b, speed) \<Rightarrow>
          (case (f_trunc ops a, f_trunc ops b) of
             (Inr fs, Inr fe) \<Rightarrow> fs \<le> fe \<and> isl (f_round ops speed)
           | _ \<Rightarrow> True))"

definition graph_unreadable :: "'f py_ops \<Rightarrow> string list \<Rightarrow> bool" where
  "graph_unreadable ops data \<longleftrightarrow>
     length data < 3 \<or> isl (int_of_str ops (data ! 1)) \<or> isl (f_of_str ops (data ! 2))"

text \<open>
  A record \<open>covers\<close> the frames of its inclusive range from \<open>frameStart\<close> to
  \<open>frameEnd\<close>; \<open>last_covering\<close> is the last record of a series that covers a frame.
\<close>

definition covers :: "int \<Rightarrow> int \<times> int \<times> 'a \<Rightarrow> bool" where
  "covers frame r \<longleftrightarrow> fst r \<le> frame \<and> frame \<le> fst (snd r)"

definition last_covering :: "(int \<times> int \<times> 'a) list \<Rightarrow> int \<Rightarrow> (int \<times> int \<times> 'a) option" where
  "last_covering parsed frame =
     (case filter (covers frame) parsed of [] \<Rightarrow> None | r # rs \<Rightarrow> Some (last (r # rs)))"

section \<open>The calls of a graph writer as the specification words them\<close>

text \<open>
  \<open>action_used\<close> is the action the curve goes to: the one the graph has, or else a new
  one. \<open>writer_log\<close> holds of a call log with exactly one new value node, a new action
  only when the graph had none, exactly one new curve, in the action used and bound to
  the output of the new node (its data path is \<open>nodes["N"].outputs[0].default_value\<close>
  for the name \<open>N\<close> the host gave the new node; the code point 0x22 is the double
  quote), and for every record one keyframe at its frame with its speed and constant
  interpolation, and no other keyframe.
\<close>

definition action_used :: "string \<Rightarrow> node_graph \<Rightarrow> action_ref" where
  "action_used action_name graph =
     (case animation_data graph of
        Some (Some a) \<Rightarrow> Existing_action a
      | _ \<Rightarrow> New_action action_name)"

definition writer_log ::
  "string \<Rightarrow> node_graph \<Rightarrow> int list \<Rightarrow> 'f list \<Rightarrow> 'f host_call list \<Rightarrow> bool" where
  "writer_log action_name graph frame_numbers speeds calls \<longleftrightarrow>
     filter is_Nodes_new calls = [Nodes_new ''ShaderNodeValue'']
     \<and> filter is_Actions_new calls =
         (case action_used action_name graph of
            Existing_action _ \<Rightarrow> []
          | New_action n \<Rightarrow> [Actions_new n])
     \<and> filter is_Fcurves_new calls =
         [Fcurves_new (action_used action_name graph)
            (''nodes['' @ [CHR 0x22] @ named graph ''Speed Value'' @ [CHR 0x22]
               @ ''].outputs[0].default_value'')]
     \<and> filter (\<lambda>c. is_Keyframe_insert c \<or> is_Keyframe_interpolation c) calls =
         concat (map (\<lambda>(frame, speed).
                   [Keyframe_insert frame speed, Keyframe_interpolation ''CONSTANT''])
                 (zip frame_numbers speeds))
     \<and> length (filter is_Keyframe_insert calls) = length frame_numbers
     \<and> length frame_numbers = length speeds"

section \<open>Comprehensions and list segments\<close>

text \<open>
  The recursive equations of \<open>range_up\<close>, \<open>range_down\<close> and \<open>str_of_nat\<close> are
  unconditional; they are unfolded by hand.
\<close>

declare range_up.simps [simp del] range_down.simps [simp del] str_of_nat.simps [simp del]

lemma comprehension_cong:
  "(\<And>x. x \<in> set xs \<Longrightarrow> f x = g x) \<Longrightarrow> comprehension f xs = comprehension g xs"
  by (induction xs) (auto split: sum.splits)

lemma averaging_loop_comprehension:
  "averaging_loop ops w xs js acc =
     (case comprehension (averaged_record ops w xs) js of
        Inl e \<Rightarrow> Inl e | Inr ys \<Rightarrow> Inr (acc @ ys))"
  by (induction js arbitrary: acc) (auto split: sum.splits)

lemma take_drop_nth:
  "lo \<le> hi \<Longrightarrow> hi \<le> length xs \<Longrightarrow> take (hi - lo) (drop lo xs) = map (\<lambda>j. xs ! j) [lo..<hi]"
  by (rule nth_equalityI) auto

lemma filter_interval_upt:
  assumes "lo \<le> hi" and "hi \<le> n"
  shows "filter (\<lambda>j. lo \<le> j \<and> j < hi) [0..<n] = [lo..<hi]"
  using assms by (intro sorted_distinct_set_unique) (auto intro: sorted_wrt_filter)

lemma comprehension_Inr:
  "comprehension f xs = Inr ys \<Longrightarrow> length ys = length xs \<and> (\<forall>k < length xs. f (xs ! k) = Inr (ys ! k))"
proof (induction xs arbitrary: ys)
  case Nil
  then show ?case by simp
next
  case (Cons x xs)
  then show ?case
    by (auto split: sum.splits simp: nth_Cons')
qed

lemma window_at_indices:
  assumes "0 \<le> w" and "i < length xs"
  shows "window_at w xs i = map (\<lambda>j. xs ! j) (centered_indices (w div 2) (length xs) i)"
proof -
  define h where "h = nat (w div 2)"
  have h: "w div 2 = int h" using assms by (simp add: h_def)
  define lo where "lo = i - h"
  define hi where "hi = min (length xs) (i + h + 1)"
  have lohi: "lo \<le> hi" "hi \<le> length xs"
    using assms by (auto simp: lo_def hi_def)
  have ws: "max 0 (int i - w div 2) = int lo"
    by (auto simp: h lo_def)
  have we: "min (int (length xs)) (int i + w div 2 + 1) = int hi"
    by (auto simp: h hi_def)
  have "window_at w xs i = take (hi - lo) (drop lo xs)"
    using lohi by (simp add: window_at_def py_slice_def slice_bound_def ws we Let_def)
  also have "\<dots> = map (\<lambda>j. xs ! j) [lo..<hi]"
    using lohi by (rule take_drop_nth)
  also have "[lo..<hi] = filter (\<lambda>j. lo \<le> j \<and> j < hi) [0..<length xs]"
    using lohi by (simp add: filter_interval_upt)
  also have "\<dots> = centered_indices (w div 2) (length xs) i"
    unfolding centered_indices_def h
    by (rule filter_cong) (auto simp: lo_def hi_def)
  finally show ?thesis .
qed

lemma spec_window_odd:
  assumes "odd w"
  shows "spec_window left w n i = centered_indices (w div 2) n i"
proof -
  obtain k where k: "w = 2 * k + 1" using assms by (elim oddE)
  show ?thesis
    unfolding spec_window_def centered_indices_def Let_def
    by (rule filter_cong) (auto simp: k)
qed


lemma comprehension_list_all2:
  "comprehension f xs = Inr ys \<longleftrightarrow> list_all2 (\<lambda>x y. f x = Inr y) xs ys"
proof
  assume "comprehension f xs = Inr ys"
  then show "list_all2 (\<lambda>x y. f x = Inr y) xs ys"
    by (induction xs arbitrary: ys) (auto split: sum.splits)
next
  assume "list_all2 (\<lambda>x y. f x = Inr y) xs ys"
  then show "comprehension f xs = Inr ys"
    by (induction rule: list_all2_induct) auto
qed

lemma averaging_pass_closed_form:
  assumes "0 \<le> w"
  shows "averaging_pass ops w xs =
           comprehension
             (\<lambda>i. ebind (rounded_mean ops
                       (map (\<lambda>j. speed_of (xs ! j)) (centered_indices (w div 2) (length xs) i)))
                    (\<lambda>s. Inr (frame_start_of (xs ! i), frame_end_of (xs ! i), s)))
             [0..<length xs]"
proof -
  have "averaging_pass ops w xs = comprehension (averaged_record ops w xs) [0..<length xs]"
    by (simp add: averaging_pass_def averaging_loop_comprehension split: sum.splits)
  also have "\<dots> = comprehension
             (\<lambda>i. ebind (rounded_mean ops
                       (map (\<lambda>j. speed_of (xs ! j)) (centered_indices (w div 2) (length xs) i)))
                    (\<lambda>s. Inr (frame_start_of (xs ! i), frame_end_of (xs ! i), s)))
             [0..<length xs]"
  proof (rule comprehension_cong)
    fix i assume "i \<in> set [0..<length xs]"
    then have i: "i < length xs" by simp
    show "averaged_record ops w xs i =
            ebind (rounded_mean ops
                       (map (\<lambda>j. speed_of (xs ! j)) (centered_indices (w div 2) (length xs) i)))
                    (\<lambda>s. Inr (frame_start_of (xs ! i), frame_end_of (xs ! i), s))"
      by (simp add: averaged_record_def window_at_indices [OF assms i] rounded_mean_def
          ebind_def o_def Let_def split: sum.splits)
  qed
  finally show ?thesis .
qed

lemma averaging_pass_preserves:
  assumes "averaging_pass ops w xs = Inr ys"
  shows "length ys = length xs \<and> map frame_start_of ys = map frame_start_of xs
         \<and> map frame_end_of ys = map frame_end_of xs"
proof -
  have c: "comprehension (averaged_record ops w xs) [0..<length xs] = Inr ys"
    using assms by (simp add: averaging_pass_def averaging_loop_comprehension split: sum.splits)
  from comprehension_Inr [OF c]
  have len: "length ys = length xs"
    and each: "\<And>k. k < length xs \<Longrightarrow> averaged_record ops w xs k = Inr (ys ! k)"
    by auto
  have "frame_start_of (ys ! k) = frame_start_of (xs ! k) \<and> frame_end_of (ys ! k) = frame_end_of (xs ! k)"
    if "k < length xs" for k
    using each [OF that]
    by (auto simp: averaged_record_def ebind_def Let_def frame_start_of_def frame_end_of_def
        split: sum.splits) (metis fst_conv snd_conv)+
  then show ?thesis
    using len by (auto intro: nth_equalityI)
qed

lemma exact_rounded_mean:
  "vals \<noteq> [] \<Longrightarrow> rounded_mean exact_arith vals
     = Inr (round_half_even (real_of_int (sum_list vals) / real (length vals)))"
  by (simp add: rounded_mean_def int_truediv_def exact_arith_def ebind_def)

lemma centered_indices_self: "0 \<le> h \<Longrightarrow> i < n \<Longrightarrow> i \<in> set (centered_indices h n i)"
  by (simp add: centered_indices_def)

lemma averaging_pass_exact_returns:
  assumes "0 \<le> w"
  shows "\<exists>ys. averaging_pass exact_arith w xs = Inr ys"
proof -
  let ?f = "\<lambda>i. (frame_start_of (xs ! i), frame_end_of (xs ! i),
      round_half_even (real_of_int (sum_list (map (\<lambda>j. speed_of (xs ! j)) (centered_indices (w div 2) (length xs) i)))
         / real (length (centered_indices (w div 2) (length xs) i))))"
  have "averaging_pass exact_arith w xs = Inr (map ?f [0..<length xs])"
    unfolding averaging_pass_closed_form [OF assms] comprehension_list_all2
  proof (rule list_all2_all_nthI)
    show "length [0..<length xs] = length (map ?f [0..<length xs])" by simp
  next
    fix k assume "k < length [0..<length xs]"
    then have k: "k < length xs" by simp
    have "0 \<le> w div 2" using assms by simp
    from centered_indices_self [OF this k]
    have ne: "centered_indices (w div 2) (length xs) k \<noteq> []" by auto
    show "ebind (rounded_mean exact_arith
                 (map (\<lambda>j. speed_of (xs ! j)) (centered_indices (w div 2) (length xs) ([0..<length xs] ! k))))
           (\<lambda>s. Inr (frame_start_of (xs ! ([0..<length xs] ! k)), frame_end_of (xs ! ([0..<length xs] ! k)), s))
          = Inr (map ?f [0..<length xs] ! k)"
      using k ne by (simp add: exact_rounded_mean ebind_def)
  qed
  then show ?thesis by blast
qed


section \<open>The smoothing pass\<close>

lemmas eval_defs =
  averaging_pass_def averaged_record_def window_at_def py_slice_def slice_bound_def
  int_truediv_def ebind_def exact_arith_def round_half_even_def speed_of_def
  frame_start_of_def frame_end_of_def upt_conv_Cons Let_def

lemmas spec_eval_defs =
  spec_smoothing_def spec_window_def rounded_mean_def centered_indices_def

lemma smoothing_example:
  "averaging_pass exact_arith 3 [(0, 1, 10), (1, 2, 20), (2, 3, 30), (3, 4, 40)]
     = Inr [(0, 1, 15), (1, 2, 20), (2, 3, 30), (3, 4, 35)]"
  by (simp add: eval_defs)

text \<open>
  Claim C3, as the code has it. For every record sequence and every averaging window
  \<open>w \<ge> 1\<close>, the smoothing pass gives the record at index \<open>i\<close> the rounded mean of
  the speeds of the records at distance at most \<open>w div 2\<close> from \<open>i\<close> that exist (the
  window is cut at both ends of the sequence, neither wrapped nor padded). That is a
  window of \<open>2 * (w div 2) + 1\<close> records: for an odd \<open>w\<close> it is the centred window of
  width \<open>w\<close> of the specification, for an even \<open>w\<close> it has \<open>w + 1\<close> records. When
  the pass returns, the number of records and every \<open>frameStart\<close> and \<open>frameEnd\<close> are
  those of the input. In exact arithmetic the pass always returns, and a window of 3
  over the speeds 10, 20, 30, 40 gives 15, 20, 30, 35.
\<close>

theorem smoothing_centered_window:
  assumes "1 \<le> w"
  shows "averaging_pass ops w xs =
           comprehension
             (\<lambda>i. ebind (rounded_mean ops
                       (map (\<lambda>j. speed_of (xs ! j)) (centered_indices (w div 2) (length xs) i)))
                    (\<lambda>s. Inr (frame_start_of (xs ! i), frame_end_of (xs ! i), s)))
             [0..<length xs]
         \<and> (odd w \<longrightarrow> averaging_pass ops w xs = spec_smoothing left ops w xs)
         \<and> (\<forall>ys. averaging_pass ops w xs = Inr ys \<longrightarrow>
               length ys = length xs \<and> map frame_start_of ys = map frame_start_of xs
               \<and> map frame_end_of ys = map frame_end_of xs)
         \<and> (\<exists>ys. averaging_pass exact_arith w xs = Inr ys)
         \<and> averaging_pass exact_arith 3 [(0, 1, 10), (1, 2, 20), (2, 3, 30), (3, 4, 40)]
             = Inr [(0, 1, 15), (1, 2, 20), (2, 3, 30), (3, 4, 35)]"
proof -
  have w0: "0 \<le> w" using assms by simp
  have odd_case: "averaging_pass ops w xs = spec_smoothing left ops w xs" if "odd w"
    by (simp add: averaging_pass_closed_form [OF w0] spec_smoothing_def spec_window_odd [OF that])
  show ?thesis
    using averaging_pass_closed_form [OF w0, of ops xs] odd_case
      averaging_pass_preserves [of ops w xs] averaging_pass_exact_returns [OF w0, of xs]
      smoothing_example
    by blast
qed

theorem smoothing_centered_window_witness:
  "(1::int) \<le> 3 \<and> odd (3::int)
   \<and> averaging_pass exact_arith 3 [(0, 1, 10), (1, 2, 21), (2, 3, 30)]
       = spec_smoothing True exact_arith 3 [(0, 1, 10), (1, 2, 21), (2, 3, 30)]
   \<and> averaging_pass exact_arith 3 [(0, 1, 10), (1, 2, 21), (2, 3, 30)]
       = Inr [(0, 1, 16), (1, 2, 20), (2, 3, 26)]
   \<and> length [(0, 1, 16), (1, 2, 20), (2, 3, 26::int)] = length [(0, 1, 10), (1, 2, 21), (2, 3, 30::int)]"
proof -
  have h: "(1::int) \<le> 3" by simp
  have e: "averaging_pass exact_arith 3 [(0, 1, 10), (1, 2, 21), (2, 3, 30)]
       = Inr [(0, 1, 16), (1, 2, 20), (2, 3, 26)]"
    by (simp add: eval_defs)
  have "odd (3::int) \<longrightarrow> averaging_pass exact_arith 3 [(0, 1, 10), (1, 2, 21), (2, 3, 30)]
       = spec_smoothing True exact_arith 3 [(0, 1, 10), (1, 2, 21), (2, 3, 30)]"
    using smoothing_centered_window [OF h, of exact_arith "[(0, 1, 10), (1, 2, 21), (2, 3, 30)]" True]
    by (elim conjE)
  with e show ?thesis
    by simp
qed

text \<open>
  Claim C3 as stated fails for an even window. With \<open>w = 2\<close> over the speeds 0, 0, 30
  the code averages three records at index 1 and gives 0, 10, 15; a window of width 2
  gives 0, 0, 15 when it is longer on the left and 0, 15, 30 when it is longer on the
  right.
\<close>

theorem smoothing_even_window_counterexample:
  "averaging_pass exact_arith 2 [(0, 1, 0), (1, 2, 0), (2, 3, 30)]
     = Inr [(0, 1, 0), (1, 2, 10), (2, 3, 15)]
   \<and> spec_smoothing True exact_arith 2 [(0, 1, 0), (1, 2, 0), (2, 3, 30)]
     = Inr [(0, 1, 0), (1, 2, 0), (2, 3, 15)]
   \<and> spec_smoothing False exact_arith 2 [(0, 1, 0), (1, 2, 0), (2, 3, 30)]
     = Inr [(0, 1, 0), (1, 2, 15), (2, 3, 30)]
   \<and> length (window_at 2 [(0, 1, 0), (1, 2, 0), (2, 3, 30)] 1) = 3"
  by (simp add: eval_defs spec_eval_defs)

text \<open>
  Claim C4. Smoothing with an averaging window of 1 is the identity. In exact
  arithmetic this holds for every record sequence. For any arithmetic the output
  equals the input exactly when \<^verbatim>\<open>round(s / 1)\<close> gives back \<open>s\<close> for every speed
  \<open>s\<close> of the sequence, which is so whenever \<open>s\<close> is a float, as every speed that
  \<^verbatim>\<open>round\<close> produced is.
\<close>

theorem smoothing_window_one:
  "(averaging_pass ops 1 xs = Inr xs \<longleftrightarrow>
      (\<forall>r \<in> set xs. ebind (int_truediv ops (speed_of r) 1) (f_round ops) = Inr (speed_of r)))
   \<and> averaging_pass exact_arith 1 xs = Inr xs"
proof -
  have ci: "centered_indices 0 (length xs) i = [i]" if "i < length xs" for i
  proof -
    have "centered_indices 0 (length xs) i = filter (\<lambda>j. i \<le> j \<and> j < Suc i) [0..<length xs]"
      unfolding centered_indices_def by (rule filter_cong) auto
    also have "\<dots> = [i..<Suc i]"
      using that by (intro filter_interval_upt) auto
    finally show ?thesis by simp
  qed
  have cf: "averaging_pass ops' 1 xs =
      comprehension (\<lambda>i. ebind (ebind (int_truediv ops' (speed_of (xs ! i)) 1) (f_round ops'))
                       (\<lambda>s. Inr (frame_start_of (xs ! i), frame_end_of (xs ! i), s)))
        [0..<length xs]" for ops' :: "'b py_ops"
    unfolding averaging_pass_closed_form [of 1 ops' xs, simplified]
    by (rule comprehension_cong) (simp add: ci rounded_mean_def)
  have elem: "ebind m (\<lambda>s. Inr (frame_start_of r, frame_end_of r, s)) = Inr r
                \<longleftrightarrow> m = Inr (speed_of r)" for m :: "py_error + int" and r :: speed_record
    by (cases m; cases r) (auto simp: ebind_def frame_start_of_def frame_end_of_def speed_of_def)
  have iff: "averaging_pass ops' 1 xs = Inr xs \<longleftrightarrow>
      (\<forall>r \<in> set xs. ebind (int_truediv ops' (speed_of r) 1) (f_round ops') = Inr (speed_of r))"
    for ops' :: "'b py_ops"
    unfolding cf comprehension_list_all2 list_all2_conv_all_nth
    by (simp add: elem all_set_conv_all_nth)
  have "averaging_pass exact_arith 1 xs = Inr xs"
    unfolding iff by (simp add: int_truediv_def exact_arith_def ebind_def round_half_even_def)
  with iff [of ops] show ?thesis by blast
qed

theorem smoothing_window_one_witness:
  "ebind (int_truediv exact_arith (speed_of (0, 1, 7)) 1) (f_round exact_arith) = Inr (speed_of (0, 1, 7))
   \<and> averaging_pass exact_arith 1 [(0, 1, 7), (1, 2, - 3)] = Inr [(0, 1, 7), (1, 2, - 3)]"
  using smoothing_window_one [of exact_arith "[(0, 1, 7), (1, 2, - 3)]"]
  by (simp add: int_truediv_def exact_arith_def ebind_def round_half_even_def speed_of_def)

section \<open>The sampling pass\<close>


lemma range_up_closed:
  "0 < step \<Longrightarrow>
     range_up i stop step = map (\<lambda>k. i + int k * step) [0..<nat ((stop - i + step - 1) div step)]"
proof (induction i stop step rule: range_up.induct)
  case (1 i stop step)
  show ?case
  proof (cases "i < stop")
    case True
    define q where "q = (stop - i - 1) div step"
    have q0: "0 \<le> q" using True 1(2) by (simp add: q_def pos_imp_zdiv_nonneg_iff)
    have "(stop - i + step - 1) div step = ((stop - i - 1) + step) div step"
      by (simp add: algebra_simps)
    also have "\<dots> = (stop - i - 1) div step + 1"
      using 1(2) by (intro div_add_self2) simp
    finally have n1: "(stop - i + step - 1) div step = q + 1"
      by (simp add: q_def)
    have "stop - (i + step) + step - 1 = stop - i - 1" by simp
    then have n2: "(stop - (i + step) + step - 1) div step = q"
      by (simp only: q_def)
    have "range_up i stop step = i # range_up (i + step) stop step"
      using True 1(2) by (subst range_up.simps) simp
    also have "range_up (i + step) stop step = map (\<lambda>k. i + step + int k * step) [0..<nat q]"
      using 1(1) True 1(2) by (simp only: n2)
    also have "i # map (\<lambda>k. i + step + int k * step) [0..<nat q]
               = map (\<lambda>k. i + int k * step) [0..<Suc (nat q)]"
      by (simp add: upt_conv_Cons map_Suc_upt [symmetric] algebra_simps del: upt_Suc)
    also have "Suc (nat q) = nat ((stop - i + step - 1) div step)"
      using q0 by (simp add: n1 nat_add_distrib)
    finally show ?thesis .
  next
    case False
    then have "(stop - i + step - 1) div step \<le> (step - 1) div step"
      using 1(2) by (intro zdiv_mono1) auto
    then have "(stop - i + step - 1) div step \<le> 0"
      using 1(2) by (simp add: div_pos_pos_trivial)
    then show ?thesis using False by (subst range_up.simps) simp
  qed
qed


lemma py_range_frames:
  assumes "1 \<le> ivl"
  shows "py_range start_frame (end_frame + 1) ivl = Inr (arith_frames start_frame end_frame ivl)"
proof -
  have "(end_frame + 1 - start_frame + ivl - 1) div ivl = ((end_frame - start_frame) + ivl) div ivl"
    by (simp add: algebra_simps)
  also have "\<dots> = (end_frame - start_frame) div ivl + 1"
    using assms by (intro div_add_self2) simp
  finally show ?thesis
    using assms by (simp add: py_range_def arith_frames_def range_up_closed)
qed

lemma comprehension_map: "comprehension f (map h xs) = comprehension (\<lambda>x. f (h x)) xs"
  by (induction xs) (auto split: sum.splits)

lemma sampling_loop_Some:
  "snd (sampling_loop ops obj rate ivl frames (Some (obj pf)) speed_data cur) =
     (case comprehension (\<lambda>(a, b). ebind (measure_speed ops (obj a) (obj b) ivl rate) (\<lambda>speed. Inr (b - ivl, b, speed))) (zip (pf # frames) frames) of
        Inl e \<Rightarrow> Inl e | Inr rs \<Rightarrow> Inr (speed_data @ rs))"
proof (induction frames arbitrary: pf speed_data cur)
  case Nil
  then show ?case by simp
next
  case (Cons f frames)
  show ?case
    by (simp add: Cons.IH ebind_def Let_def split: sum.splits)
qed

lemma sampling_loop_None:
  "snd (sampling_loop ops obj rate ivl frames None [] cur) =
     comprehension (\<lambda>(a, b). ebind (measure_speed ops (obj a) (obj b) ivl rate) (\<lambda>speed. Inr (b - ivl, b, speed))) (zip frames (tl frames))"
  by (cases frames) (simp_all add: sampling_loop_Some Let_def split: sum.splits)

lemma tl_arith_frames:
  "tl (arith_frames s e ivl) =
     map (\<lambda>k. s + int (Suc k) * ivl) [0..<nat ((e - s) div ivl + 1) - 1]"
  by (rule nth_equalityI) (auto simp: arith_frames_def nth_tl algebra_simps)

lemma zip_arith_frames:
  "zip (arith_frames s e ivl) (tl (arith_frames s e ivl))
     = map (\<lambda>f. (f - ivl, f)) (tl (arith_frames s e ivl))"
  unfolding tl_arith_frames
  by (rule nth_equalityI) (auto simp: arith_frames_def algebra_simps)

lemma sampling_pass_closed_form:
  assumes "1 \<le> ivl"
  shows "snd (sampling_pass ops obj rate s e ivl cur) =
           comprehension (spec_record ops obj rate ivl) (tl (arith_frames s e ivl))"
proof -
  have "snd (sampling_pass ops obj rate s e ivl cur) =
          comprehension
            (\<lambda>(a, b). ebind (measure_speed ops (obj a) (obj b) ivl rate)
                        (\<lambda>speed. Inr (b - ivl, b, speed)))
            (zip (arith_frames s e ivl) (tl (arith_frames s e ivl)))"
    by (simp add: sampling_pass_def py_range_frames [OF assms] sampling_loop_None)
  also have "\<dots> = comprehension (spec_record ops obj rate ivl) (tl (arith_frames s e ivl))"
    unfolding zip_arith_frames comprehension_map
    by (rule comprehension_cong) (simp add: spec_record_def)
  finally show ?thesis .
qed


lemma set_arith_frames:
  assumes "1 \<le> ivl"
  shows "set (arith_frames s e ivl) = {f. s \<le> f \<and> f \<le> e \<and> ivl dvd (f - s)}"
proof (intro set_eqI iffI)
  fix f assume "f \<in> set (arith_frames s e ivl)"
  then have "\<exists>k. f = s + int k * ivl \<and> k < nat ((e - s) div ivl + 1)"
    unfolding arith_frames_def by auto
  then obtain k where k: "f = s + int k * ivl" "k < nat ((e - s) div ivl + 1)"
    by blast
  then have "int k \<le> (e - s) div ivl" by linarith
  then have "int k * ivl \<le> (e - s) div ivl * ivl"
    using assms by (intro mult_right_mono) auto
  also have "\<dots> = (e - s) - (e - s) mod ivl"
    by (simp add: minus_mod_eq_div_mult)
  also have "\<dots> \<le> e - s"
    using assms by simp
  finally show "f \<in> {f. s \<le> f \<and> f \<le> e \<and> ivl dvd (f - s)}"
    using k assms by auto
next
  fix f assume "f \<in> {f. s \<le> f \<and> f \<le> e \<and> ivl dvd (f - s)}"
  then have f: "s \<le> f" "f \<le> e" and "ivl dvd (f - s)" by auto
  then obtain m where m: "f - s = ivl * m" by (auto simp: dvd_def)
  have m0: "0 \<le> m"
    using f m assms by (smt (verit) mult_less_0_iff)
  have "m = (f - s) div ivl" using m assms by simp
  also have "\<dots> \<le> (e - s) div ivl"
    using f assms by (intro zdiv_mono1) auto
  finally have "nat m < nat ((e - s) div ivl + 1)" using m0 by linarith
  moreover have "f = s + int (nat m) * ivl" using m m0 by (simp add: algebra_simps)
  ultimately show "f \<in> set (arith_frames s e ivl)"
    unfolding arith_frames_def by (auto intro!: image_eqI [where x = "nat m"])
qed

lemma comprehension_member:
  "comprehension f xs = Inr ys \<Longrightarrow> r \<in> set ys \<Longrightarrow> \<exists>x \<in> set xs. f x = Inr r"
  by (induction xs arbitrary: ys) (auto split: sum.splits)

lemma comprehension_all_Inr:
  "(\<And>x. x \<in> set xs \<Longrightarrow> f x = Inr (g x)) \<Longrightarrow> comprehension f xs = Inr (map g xs)"
  by (induction xs) auto

lemma measure_speed_exact:
  assumes "1 \<le> ivl" and "rate \<noteq> 0"
  shows "measure_speed exact_arith p q ivl rate =
           Inr (round_half_even
                  (sqrt ((fst q - fst p)\<^sup>2 + (snd q - snd p)\<^sup>2)
                     / (real_of_int ivl / real_of_int rate) * 100))"
proof -
  have "\<not> (fst q - fst p) * (fst q - fst p) + (snd q - snd p) * (snd q - snd p) < 0"
    by (simp add: not_less)
  then show ?thesis
    using assms
    by (simp add: measure_speed_def exact_arith_def int_truediv_def ebind_def Let_def
        power2_eq_square)
qed

lemma length_tl_arith_frames:
  "int (length (tl (arith_frames s e ivl))) = max 0 ((e - s) div ivl)"
  by (simp add: arith_frames_def)


lemma spec_record_exact:
  assumes "1 \<le> ivl" and "rate \<noteq> 0"
  shows "spec_record exact_arith obj rate ivl f =
           Inr (f - ivl, f,
                round_half_even
                  (sqrt ((fst (obj f) - fst (obj (f - ivl)))\<^sup>2
                         + (snd (obj f) - snd (obj (f - ivl)))\<^sup>2)
                     / (real_of_int ivl / real_of_int rate) * 100))"
  by (simp add: spec_record_def measure_speed_exact [OF assms] ebind_def)

text \<open>
  Claim C1. With a stride \<open>ivl \<ge> 1\<close> the sampler visits the frames \<open>start\<close>,
  \<open>start + ivl\<close>, \<open>start + 2 * ivl\<close>, ... up to \<open>end\<close>: the frames between
  \<open>start\<close> and \<open>end\<close> that \<open>ivl\<close> divides the distance to \<open>start\<close> of. For every
  sampled frame \<open>f\<close> after the first it emits exactly the record of \<open>f - ivl\<close>, \<open>f\<close>
  and the speed measured between the locations at \<open>f - ivl\<close> and \<open>f\<close>, in frame order,
  and nothing for the first frame (an exception of the arithmetic ends the pass at the
  first frame that raises). Every emitted record has
  \<open>frameEnd = frameStart + ivl\<close>. In exact arithmetic and with \<open>fps > 0\<close> the speed
  is \<open>round((sqrt(dx\<^sup>2 + dy\<^sup>2) / (ivl / fps)) * 100)\<close>.
\<close>

theorem sampler_records:
  assumes "1 \<le> ivl"
  shows "py_range s (e + 1) ivl = Inr (arith_frames s e ivl)
         \<and> set (arith_frames s e ivl) = {f. s \<le> f \<and> f \<le> e \<and> ivl dvd (f - s)}
         \<and> snd (sampling_pass ops obj rate s e ivl cur) =
             comprehension (spec_record ops obj rate ivl) (tl (arith_frames s e ivl))
         \<and> (\<forall>recs. snd (sampling_pass ops obj rate s e ivl cur) = Inr recs \<longrightarrow>
               (\<forall>r \<in> set recs. frame_end_of r = frame_start_of r + ivl))
         \<and> (0 < rate \<longrightarrow>
               spec_record exact_arith obj' rate ivl f =
                 Inr (f - ivl, f,
                      round_half_even
                        (sqrt ((fst (obj' f) - fst (obj' (f - ivl)))\<^sup>2
                               + (snd (obj' f) - snd (obj' (f - ivl)))\<^sup>2)
                           / (real_of_int ivl / real_of_int rate) * 100)))"
proof -
  have cf: "snd (sampling_pass ops obj rate s e ivl cur) =
             comprehension (spec_record ops obj rate ivl) (tl (arith_frames s e ivl))"
    by (rule sampling_pass_closed_form [OF assms])
  have ends: "frame_end_of r = frame_start_of r + ivl"
    if "snd (sampling_pass ops obj rate s e ivl cur) = Inr recs" and "r \<in> set recs" for recs r
  proof -
    from that cf obtain f where "spec_record ops obj rate ivl f = Inr r"
      by (metis comprehension_member)
    then show ?thesis
      by (auto simp: spec_record_def ebind_def frame_end_of_def frame_start_of_def
          split: sum.splits)
  qed
  have exact: "0 < rate \<longrightarrow>
               spec_record exact_arith obj' rate ivl f =
                 Inr (f - ivl, f,
                      round_half_even
                        (sqrt ((fst (obj' f) - fst (obj' (f - ivl)))\<^sup>2
                               + (snd (obj' f) - snd (obj' (f - ivl)))\<^sup>2)
                           / (real_of_int ivl / real_of_int rate) * 100))"
    using spec_record_exact [OF assms, of rate obj' f] by simp
  show ?thesis
  proof (intro conjI allI impI ballI)
    show "py_range s (e + 1) ivl = Inr (arith_frames s e ivl)"
      by (rule py_range_frames [OF assms])
    show "set (arith_frames s e ivl) = {f. s \<le> f \<and> f \<le> e \<and> ivl dvd (f - s)}"
      by (rule set_arith_frames [OF assms])
    show "snd (sampling_pass ops obj rate s e ivl cur) =
             comprehension (spec_record ops obj rate ivl) (tl (arith_frames s e ivl))"
      by (rule cf)
    show "frame_end_of r = frame_start_of r + ivl"
      if "snd (sampling_pass ops obj rate s e ivl cur) = Inr recs" and "r \<in> set recs" for recs r
      using that by (rule ends)
    show "spec_record exact_arith obj' rate ivl f =
                 Inr (f - ivl, f,
                      round_half_even
                        (sqrt ((fst (obj' f) - fst (obj' (f - ivl)))\<^sup>2
                               + (snd (obj' f) - snd (obj' (f - ivl)))\<^sup>2)
                           / (real_of_int ivl / real_of_int rate) * 100))" if "0 < rate"
      using that exact by simp
  qed
qed

lemma sqrt_10000: "sqrt 10000 = 100"
  by (rule real_sqrt_unique) auto

theorem sampler_records_witness:
  "(1::int) \<le> 1
   \<and> py_range 0 (4 + 1) 1 = Inr [0, 1, 2, 3, 4]
   \<and> snd (sampling_pass exact_arith (\<lambda>f. (100 * real_of_int f, 0)) 24 0 4 1 0) =
       Inr [(0, 1, 240000), (1, 2, 240000), (2, 3, 240000), (3, 4, 240000)]"
proof -
  have h: "(1::int) \<le> 1" by simp
  have fr: "arith_frames 0 4 1 = [0, 1, 2, 3, 4]"
    by (simp add: arith_frames_def upt_conv_Cons)
  note t = sampler_records [OF h, of 0 4 exact_arith "\<lambda>f. (100 * real_of_int f, 0)" 24 0]
  have r: "py_range 0 (4 + 1) 1 = Inr (arith_frames 0 4 1)"
    by (rule t [THEN conjunct1])
  have c: "snd (sampling_pass exact_arith (\<lambda>f. (100 * real_of_int f, 0)) 24 0 4 1 0) =
       comprehension (spec_record exact_arith (\<lambda>f. (100 * real_of_int f, 0)) 24 1) (tl (arith_frames 0 4 1))"
    by (rule t [THEN conjunct2, THEN conjunct2, THEN conjunct1])
  show ?thesis
    using r unfolding c fr
    by (simp add: spec_record_exact sqrt_10000 round_half_even_def)
qed

text \<open>
  Claim C2. For every frame range and every stride \<open>k \<ge> 1\<close>, the sampling pass
  produces \<open>max(0, floor((end - start) / k))\<close> records whenever it returns, and in
  exact arithmetic with a frame rate other than zero it returns. When \<open>start = end\<close>
  it produces no record, in any arithmetic.
\<close>

theorem sampler_record_count:
  assumes "1 \<le> k"
  shows "(\<forall>recs. snd (sampling_pass ops obj rate s e k cur) = Inr recs \<longrightarrow>
            int (length recs) = max 0 ((e - s) div k))
         \<and> (rate \<noteq> 0 \<longrightarrow>
              (\<exists>recs. snd (sampling_pass exact_arith obj' rate s e k cur) = Inr recs
                 \<and> int (length recs) = max 0 ((e - s) div k)))
         \<and> sampling_pass ops obj rate s s k cur = (s, Inr [])"
proof -
  have cf: "snd (sampling_pass ops' obj'' rate s e k cur) =
             comprehension (spec_record ops' obj'' rate k) (tl (arith_frames s e k))"
    for ops' :: "'b py_ops" and obj''
    by (rule sampling_pass_closed_form [OF assms])
  have count: "int (length recs) = max 0 ((e - s) div k)"
    if "snd (sampling_pass ops' obj'' rate s e k cur) = Inr recs"
    for ops' :: "'b py_ops" and obj'' recs
    using that comprehension_Inr [of "spec_record ops' obj'' rate k" "tl (arith_frames s e k)" recs]
      length_tl_arith_frames [of s e k]
    unfolding cf by simp
  have ex: "\<exists>recs. snd (sampling_pass exact_arith obj' rate s e k cur) = Inr recs" if "rate \<noteq> 0"
    unfolding cf
    using comprehension_all_Inr [of "tl (arith_frames s e k)" "spec_record exact_arith obj' rate k",
        OF spec_record_exact [OF assms that]]
    by blast
  have same: "sampling_pass ops obj rate s s k cur = (s, Inr [])"
    using assms by (simp add: sampling_pass_def py_range_frames arith_frames_def)
  show ?thesis
  proof (intro conjI allI impI)
    show "int (length recs) = max 0 ((e - s) div k)"
      if "snd (sampling_pass ops obj rate s e k cur) = Inr recs" for recs
      using that by (rule count)
    show "\<exists>recs. snd (sampling_pass exact_arith obj' rate s e k cur) = Inr recs
                 \<and> int (length recs) = max 0 ((e - s) div k)" if "rate \<noteq> 0"
      using ex [OF that] count by blast
    show "sampling_pass ops obj rate s s k cur = (s, Inr [])"
      by (rule same)
  qed
qed

theorem sampler_record_count_witness:
  "(1::int) \<le> 2 \<and> (24::int) \<noteq> 0
   \<and> (\<exists>recs. snd (sampling_pass exact_arith (\<lambda>f. (real_of_int f, 0)) 24 1 8 2 1) = Inr recs
         \<and> int (length recs) = 3)
   \<and> sampling_pass exact_arith (\<lambda>f. (real_of_int f, 0)) 24 5 5 2 1 = (5, Inr [])"
proof -
  have h: "(1::int) \<le> 2" by simp
  show ?thesis
    using sampler_record_count [OF h, of exact_arith "\<lambda>f. (real_of_int f, 0)" 24 1 8 1 "\<lambda>f. (real_of_int f, 0)"]
      sampler_record_count [OF h, of exact_arith "\<lambda>f. (real_of_int f, 0)" 24 5 5 1 "\<lambda>f. (real_of_int f, 0)"]
    by simp
qed

section \<open>The Get Speed operator\<close>

lemma arith_frames_short:
  assumes "1 \<le> ivl" and "e < s + ivl"
  shows "arith_frames s e ivl = (if s \<le> e then [s] else [])"
proof (cases "s \<le> e")
  case True
  then have "(e - s) div ivl = 0"
    using assms by (simp add: div_pos_pos_trivial)
  then show ?thesis using True by (simp add: arith_frames_def)
next
  case False
  moreover have "0 < ivl" using assms by simp
  ultimately have "(e - s) div ivl < 0"
    by (simp add: pos_imp_zdiv_neg_iff)
  then show ?thesis using False by (simp add: arith_frames_def)
qed

lemma sampling_pass_short:
  assumes "1 \<le> ivl" and "e < s + ivl"
  shows "sampling_pass ops obj rate s e ivl cur = (if s \<le> e then s else cur, Inr [])"
  using assms
  by (simp add: sampling_pass_def py_range_frames arith_frames_short)

lemma averaging_pass_Nil: "averaging_pass ops w [] = Inr []"
  by (simp add: averaging_pass_def)

text \<open>
  Claim C7, as the code has it. When no object is selected the operator reports the
  error "No object selected", returns \<open>CANCELLED\<close>, writes no record and leaves the
  text blocks and the scene as they were. A frame range that yields no record (fewer
  than two samples, as when the first and the last frame are the same) is no error:
  the operator returns \<open>FINISHED\<close> with the report "Speed data recorded", writes no
  record, and the text block it writes to is empty afterwards, whatever it held; that
  is the block of the configured name when there is one, and otherwise the block the
  host makes for that name. The scene is left at the first frame when one was sampled.
\<close>

theorem GetSpeed_failures:
  "GetSpeed_execute ops new_name p None sc blocks
     = (CANCELLED, [ERROR ''No object selected''], sc, blocks)
   \<and> (1 \<le> stride p \<and> frame_end sc < frame_start sc + stride p \<longrightarrow>
        GetSpeed_execute ops new_name p (Some obj) sc blocks =
          (FINISHED, [INFO ''Speed data recorded''],
           sc\<lparr>frame_current := (if frame_start sc \<le> frame_end sc then frame_start sc
                                 else frame_current sc)\<rparr>,
           blocks((if text_block_name p \<in> dom blocks then text_block_name p
                   else new_name blocks (text_block_name p)) \<mapsto> [])))"
proof (intro conjI impI)
  show "GetSpeed_execute ops new_name p None sc blocks
          = (CANCELLED, [ERROR ''No object selected''], sc, blocks)"
    by (simp add: GetSpeed_execute_def)
next
  assume a: "1 \<le> stride p \<and> frame_end sc < frame_start sc + stride p"
  then have "sampling_pass ops obj (fps sc) (frame_start sc) (frame_end sc) (stride p) (frame_current sc)
      = (if frame_start sc \<le> frame_end sc then frame_start sc else frame_current sc, Inr [])"
    by (intro sampling_pass_short) auto
  then show "GetSpeed_execute ops new_name p (Some obj) sc blocks =
          (FINISHED, [INFO ''Speed data recorded''],
           sc\<lparr>frame_current := (if frame_start sc \<le> frame_end sc then frame_start sc
                                 else frame_current sc)\<rparr>,
           blocks((if text_block_name p \<in> dom blocks then text_block_name p
                   else new_name blocks (text_block_name p)) \<mapsto> []))"
    by (simp add: GetSpeed_execute_def averaging_pass_Nil write_records_def Let_def)
qed

text \<open>
  Claim C7 as stated fails on a frame range that yields no record. With an object
  selected, the first and the last frame both 5, and 24 frames per second, the operator
  reports no error: it returns \<open>FINISHED\<close> with the report "Speed data recorded", the
  text block \<open>speed_data\<close>, which held a record, is empty afterwards, and the scene has
  moved from frame 1 to frame 5.
\<close>

theorem GetSpeed_degenerate_counterexample:
  "GetSpeed_execute exact_arith (\<lambda>blocks name. name) default_props (Some (\<lambda>f. (0, 0)))
     \<lparr>frame_start = 5, frame_end = 5, fps = 24, frame_current = 1\<rparr>
     [''speed_data'' \<mapsto> ''0,1,5'']
   = (FINISHED, [INFO ''Speed data recorded''],
      \<lparr>frame_start = 5, frame_end = 5, fps = 24, frame_current = 5\<rparr>,
      [''speed_data'' \<mapsto> []])"
  by (simp add: GetSpeed_execute_def default_props_def stride_def sampling_pass_def py_range_def
      range_up.simps write_records_def)

theorem GetSpeed_failures_witness:
  "GetSpeed_execute exact_arith (\<lambda>blocks name. if name = [] then ''Text'' else name)
     (default_props\<lparr>apply_averaging := True\<rparr>) (Some (\<lambda>f. (0, 0)))
     \<lparr>frame_start = 10, frame_end = 10, fps = 24, frame_current = 7\<rparr> [''notes'' \<mapsto> ''abc'']
   = (FINISHED, [INFO ''Speed data recorded''],
      \<lparr>frame_start = 10, frame_end = 10, fps = 24, frame_current = 10\<rparr>,
      [''notes'' \<mapsto> ''abc'', ''speed_data'' \<mapsto> []])
   \<and> GetSpeed_execute exact_arith (\<lambda>blocks name. if name = [] then ''Text'' else name)
     (default_props\<lparr>text_block_name := []\<rparr>) (Some (\<lambda>f. (0, 0)))
     \<lparr>frame_start = 10, frame_end = 10, fps = 24, frame_current = 7\<rparr> Map.empty
   = (FINISHED, [INFO ''Speed data recorded''],
      \<lparr>frame_start = 10, frame_end = 10, fps = 24, frame_current = 10\<rparr>,
      [''Text'' \<mapsto> []])
   \<and> GetSpeed_execute exact_arith (\<lambda>blocks name. if name = [] then ''Text'' else name)
     default_props None
     \<lparr>frame_start = 1, frame_end = 10, fps = 24, frame_current = 7\<rparr> [''speed_data'' \<mapsto> ''0,1,5'']
   = (CANCELLED, [ERROR ''No object selected''],
      \<lparr>frame_start = 1, frame_end = 10, fps = 24, frame_current = 7\<rparr>,
      [''speed_data'' \<mapsto> ''0,1,5''])"
  using GetSpeed_failures [of exact_arith "\<lambda>blocks name. if name = [] then ''Text'' else name"
      "default_props\<lparr>apply_averaging := True\<rparr>"
      "\<lparr>frame_start = 10, frame_end = 10, fps = 24, frame_current = 7\<rparr>"
      "[''notes'' \<mapsto> ''abc'']" "\<lambda>f. (0, 0)"]
    GetSpeed_failures [of exact_arith "\<lambda>blocks name. if name = [] then ''Text'' else name"
      "default_props\<lparr>text_block_name := []\<rparr>"
      "\<lparr>frame_start = 10, frame_end = 10, fps = 24, frame_current = 7\<rparr>" Map.empty "\<lambda>f. (0, 0)"]
    GetSpeed_failures [of exact_arith "\<lambda>blocks name. if name = [] then ''Text'' else name"
      default_props
      "\<lparr>frame_start = 1, frame_end = 10, fps = 24, frame_current = 7\<rparr>"
      "[''speed_data'' \<mapsto> ''0,1,5'']" "\<lambda>f. (0, 0)"]
  by (simp add: stride_def default_props_def)

section \<open>Decimal strings\<close>


lemma of_char_digit_char: "d < 10 \<Longrightarrow> (of_char (digit_char d) :: nat) = 48 + d"
  by (simp add: digit_char_def)

lemma digit_char_plain:
  assumes "d < 10"
  shows "digit_char d \<noteq> comma" and "digit_char d \<noteq> newline" and "\<not> isspace (digit_char d)"
    and "digit_char d \<noteq> CHR ''-''" and "digit_val (digit_char d) = Some d"
proof -
  have c: "(of_char comma :: nat) = 44" by (simp add: comma_def)
  have n: "(of_char newline :: nat) = 10" by (simp add: newline_def)
  have m: "(of_char CHR ''-'' :: nat) = 45" by simp
  note d = of_char_digit_char [OF assms]
  show "digit_char d \<noteq> comma" using c d by auto
  show "digit_char d \<noteq> newline" using n d by auto
  show "\<not> isspace (digit_char d)" using d assms by (simp add: isspace_def)
  show "digit_char d \<noteq> CHR ''-''" using m d by auto
  show "digit_val (digit_char d) = Some d" using d assms by (simp add: digit_val_def)
qed


lemma str_of_nat_digits:
  "str_of_nat n \<noteq> [] \<and> (\<forall>c \<in> set (str_of_nat n). \<exists>d < 10. c = digit_char d)"
proof (induction n rule: str_of_nat.induct)
  case (1 n)
  show ?case
  proof (cases "n < 10")
    case True
    then show ?thesis by (subst (1 2) str_of_nat.simps) auto
  next
    case False
    have "\<exists>d<10. digit_char (n mod 10) = digit_char d"
      by (rule exI [of _ "n mod 10"]) simp
    with False 1 show ?thesis
      by (subst (1 2) str_of_nat.simps) auto
  qed
qed

lemma str_of_nat_not_Nil: "str_of_nat n \<noteq> []"
  using str_of_nat_digits [of n] by (rule conjunct1)

lemma str_of_nat_digit: "c \<in> set (str_of_nat n) \<Longrightarrow> \<exists>d<10. c = digit_char d"
  using str_of_nat_digits [of n, THEN conjunct2] by (rule bspec)

lemma str_of_int_plain:
  "str_of_int i \<noteq> []"
  "c \<in> set (str_of_int i) \<Longrightarrow> c \<noteq> comma \<and> c \<noteq> newline \<and> \<not> isspace c"
proof -
  show "str_of_int i \<noteq> []"
    by (simp add: str_of_int_def str_of_nat_not_Nil)
  have minus: "CHR ''-'' \<noteq> comma \<and> CHR ''-'' \<noteq> newline \<and> \<not> isspace CHR ''-''"
    by (simp add: comma_def newline_def isspace_def)
  assume "c \<in> set (str_of_int i)"
  then consider "c = CHR ''-''" | n where "c \<in> set (str_of_nat n)"
    by (auto simp: str_of_int_def split: if_splits)
  then show "c \<noteq> comma \<and> c \<noteq> newline \<and> \<not> isspace c"
  proof cases
    case 1
    then show ?thesis using minus by simp
  next
    case 2
    then obtain d where "d < 10" "c = digit_char d"
      using str_of_nat_digit [of c n] by auto
    then show ?thesis using digit_char_plain [of d] by simp
  qed
qed


lemma nat_of_digits_snoc:
  "nat_of_digits acc (cs @ [c]) =
     (case nat_of_digits acc cs of
        None \<Rightarrow> None
      | Some a \<Rightarrow> (case digit_val c of None \<Rightarrow> None | Some d \<Rightarrow> Some (10 * a + d)))"
  by (induction cs arbitrary: acc) (auto split: option.splits)

lemma nat_of_digits_str_of_nat: "nat_of_digits 0 (str_of_nat n) = Some n"
proof (induction n rule: str_of_nat.induct)
  case (1 n)
  show ?case
  proof (cases "n < 10")
    case True
    then show ?thesis
      by (subst str_of_nat.simps) (simp add: digit_char_plain)
  next
    case False
    have "n mod 10 < 10" by simp
    then have "digit_val (digit_char (n mod 10)) = Some (n mod 10)"
      by (rule digit_char_plain)
    with False 1 show ?thesis
      by (subst str_of_nat.simps) (simp add: nat_of_digits_snoc)
  qed
qed

lemma dec_of_str_str_of_int: "dec_of_str (str_of_int i) = Some i"
proof (cases "i < 0")
  case True
  then show ?thesis
    by (simp add: dec_of_str_def str_of_int_def nat_of_digits_str_of_nat str_of_nat_not_Nil)
next
  case False
  obtain c cs where s: "str_of_nat (nat i) = c # cs"
    using str_of_nat_not_Nil [of "nat i"] by (cases "str_of_nat (nat i)") auto
  then have "c \<in> set (str_of_nat (nat i))" by simp
  then obtain d where "d < 10" "c = digit_char d"
    using str_of_nat_digit [of c "nat i"] by auto
  then have "c \<noteq> CHR ''-''" using digit_char_plain [of d] by simp
  moreover have "nat_of_digits 0 (c # cs) = Some (nat i)"
    using nat_of_digits_str_of_nat [of "nat i"] s by simp
  ultimately show ?thesis
    using False s by (simp add: dec_of_str_def str_of_int_def del: nat_of_digits.simps)
qed

section \<open>Splitting and stripping\<close>

lemma split_not_Nil: "split sep cs \<noteq> []"
  by (induction cs) (auto split: list.splits)

lemma split_no_sep: "sep \<notin> set cs \<Longrightarrow> split sep cs = [cs]"
  by (induction cs) auto

lemma split_append_sep: "sep \<notin> set cs \<Longrightarrow> split sep (cs @ sep # rest) = cs # split sep rest"
  by (induction cs) (auto split: list.splits)

lemma strip_line:
  assumes "cs \<noteq> []" and "\<not> isspace (hd cs)" and "\<not> isspace (last cs)"
  shows "strip (cs @ [newline]) = cs"
proof -
  have nl: "isspace newline" by (simp add: isspace_def newline_def)
  have "dropWhile isspace (cs @ [newline]) = cs @ [newline]"
    using assms by (cases cs) auto
  moreover have "dropWhile isspace (rev cs) = rev cs"
    using assms by (cases cs rule: rev_cases) auto
  ultimately show ?thesis
    using nl by (simp add: strip_def)
qed


section \<open>Serialize, then read\<close>

lemma write_records_concat: "write_records recs block = block @ concat (map record_line recs)"
  unfolding write_records_def by (induction recs arbitrary: block) auto

lemma butlast_lines_Cons:
  "ls \<noteq> [] \<Longrightarrow>
     butlast (concat (map (\<lambda>l. l @ [newline]) (l # ls)))
       = l @ newline # butlast (concat (map (\<lambda>l. l @ [newline]) ls))"
  by (cases ls) (simp_all add: butlast_append)

lemma split_lines:
  assumes "ls \<noteq> []" and "\<forall>l \<in> set ls. newline \<notin> set l"
  shows "split newline (butlast (concat (map (\<lambda>l. l @ [newline]) ls))) = ls"
  using assms
proof (induction ls)
  case Nil
  then show ?case by simp
next
  case (Cons l ls)
  show ?case
  proof (cases "ls = []")
    case True
    then show ?thesis using Cons.prems by (simp add: split_no_sep)
  next
    case False
    then show ?thesis
      using Cons unfolding butlast_lines_Cons [OF False] by (simp add: split_append_sep)
  qed
qed

lemma ends_of_lines:
  assumes "ls \<noteq> []" and "\<forall>l \<in> set ls. l \<noteq> []"
  shows "butlast (concat (map (\<lambda>l. l @ [newline]) ls)) \<noteq> []
         \<and> hd (butlast (concat (map (\<lambda>l. l @ [newline]) ls))) = hd (hd ls)
         \<and> last (butlast (concat (map (\<lambda>l. l @ [newline]) ls))) = last (last ls)"
  using assms
proof (induction ls)
  case Nil
  then show ?case by simp
next
  case (Cons l ls)
  show ?case
  proof (cases "ls = []")
    case True
    then show ?thesis using Cons.prems by simp
  next
    case False
    then show ?thesis
      using Cons unfolding butlast_lines_Cons [OF False] by (simp add: hd_append)
  qed
qed

lemma last_of_lines:
  "ls \<noteq> [] \<Longrightarrow>
     concat (map (\<lambda>l. l @ [newline]) ls)
       = butlast (concat (map (\<lambda>l. l @ [newline]) ls)) @ [newline]"
  by (induction ls rule: rev_induct) (auto simp: butlast_append)

lemma line_of_record:
  "record_line r = (str_of_int (frame_start_of r) @ comma # str_of_int (frame_end_of r)
                     @ comma # str_of_int (speed_of r)) @ [newline]"
  by (simp add: record_line_def)

lemma series_lines_write_records:
  assumes "recs \<noteq> []"
  shows "series_lines (write_records recs []) =
           map (\<lambda>r. str_of_int (frame_start_of r) @ comma # str_of_int (frame_end_of r)
                       @ comma # str_of_int (speed_of r)) recs"
proof -
  let ?body = "\<lambda>r. str_of_int (frame_start_of r) @ comma # str_of_int (frame_end_of r)
                       @ comma # str_of_int (speed_of r)"
  let ?ls = "map ?body recs"
  let ?t = "concat (map (\<lambda>l. l @ [newline]) ?ls)"
  have "map record_line recs = map (\<lambda>l. l @ [newline]) ?ls"
    by (induction recs) (simp_all add: line_of_record)
  then have t: "write_records recs [] = ?t"
    unfolding write_records_concat by (simp only: append_Nil)
  have ne: "?ls \<noteq> []" using assms by simp
  have nonempty: "\<forall>l \<in> set ?ls. l \<noteq> []" by simp
  have no_nl: "\<forall>l \<in> set ?ls. newline \<notin> set l"
    using str_of_int_plain(2) by (auto simp: comma_def newline_def)
  have split_t: "?t = butlast ?t @ [newline]"
    using ne by (rule last_of_lines)
  from ends_of_lines [OF ne nonempty]
  have b: "butlast ?t \<noteq> []" and h: "hd (butlast ?t) = hd (hd ?ls)"
    and l: "last (butlast ?t) = last (last ?ls)" by auto
  have "hd (hd ?ls) = hd (str_of_int (frame_start_of (hd recs)))"
    using assms str_of_int_plain(1) by (cases recs) (auto simp: hd_append)
  moreover have "hd (str_of_int (frame_start_of (hd recs))) \<in> set (str_of_int (frame_start_of (hd recs)))"
    using str_of_int_plain(1) by simp
  ultimately have hs: "\<not> isspace (hd (butlast ?t))"
    using h str_of_int_plain(2) [of "hd (str_of_int (frame_start_of (hd recs)))" "frame_start_of (hd recs)"]
    by simp
  have "last (last ?ls) = last (str_of_int (speed_of (last recs)))"
    using assms str_of_int_plain(1) by (cases recs rule: rev_cases) auto
  moreover have "last (str_of_int (speed_of (last recs))) \<in> set (str_of_int (speed_of (last recs)))"
    using str_of_int_plain(1) by simp
  ultimately have ls: "\<not> isspace (last (butlast ?t))"
    using l str_of_int_plain(2) [of "last (str_of_int (speed_of (last recs)))" "speed_of (last recs)"]
    by simp
  have "strip ?t = butlast ?t"
    using strip_line [OF b hs ls] split_t by simp
  then show ?thesis
    unfolding series_lines_def t using split_lines [OF ne no_nl] by simp
qed

lemma split_body:
  "split comma (str_of_int a @ comma # str_of_int b @ comma # str_of_int c)
     = [str_of_int a, str_of_int b, str_of_int c]"
proof -
  have "comma \<notin> set (str_of_int i)" for i
    using str_of_int_plain(2) by blast
  then show ?thesis
    by (simp add: split_append_sep split_no_sep)
qed

lemma frame_data_write_records:
  assumes "recs \<noteq> []"
  shows "frame_data_of (write_records recs []) = map decimal_fields recs"
  by (simp add: frame_data_of_def series_lines_write_records [OF assms] split_body
      decimal_fields_def o_def)

lemma comprehension_eq_map:
  "comprehension f xs = Inr (map g xs) \<longleftrightarrow> (\<forall>x \<in> set xs. f x = Inr (g x))"
  by (induction xs) (auto split: sum.splits)

lemma frame_numbers_write_records:
  assumes "recs \<noteq> []"
  shows "frame_numbers_of ops (frame_data_of (write_records recs [])) = Inr (map frame_end_of recs)
           \<longleftrightarrow> (\<forall>r \<in> set recs. int_of_str ops (str_of_int (frame_end_of r)) = Inr (frame_end_of r))"
  unfolding frame_numbers_of_def frame_data_write_records [OF assms] comprehension_map
    comprehension_eq_map
  by (simp add: decimal_fields_def item_def ebind_def)

lemma speeds_write_records:
  assumes "recs \<noteq> []"
  shows "speeds_of ops (frame_data_of (write_records recs []))
           = comprehension (\<lambda>r. f_of_str ops (str_of_int (speed_of r))) recs"
  unfolding speeds_of_def frame_data_write_records [OF assms] comprehension_map
  by (rule comprehension_cong) (simp add: decimal_fields_def item_def ebind_def)

lemma graph_series_exact:
  assumes "recs \<noteq> []"
  shows "graph_series exact_arith (write_records recs [])
           = Inr (map frame_end_of recs, map (\<lambda>r. real_of_int (speed_of r)) recs)"
proof -
  have "comprehension (\<lambda>r. f_of_str exact_arith (str_of_int (speed_of r))) recs
          = Inr (map (\<lambda>r. real_of_int (speed_of r)) recs)"
    by (intro comprehension_all_Inr) (simp add: exact_arith_def dec_of_str_str_of_int)
  moreover have "frame_numbers_of exact_arith (frame_data_of (write_records recs []))
          = Inr (map frame_end_of recs)"
    unfolding frame_numbers_write_records [OF assms]
    by (simp add: exact_arith_def dec_of_str_str_of_int)
  ultimately show ?thesis
    by (simp add: graph_series_def speeds_write_records [OF assms] ebind_def)
qed

lemma str_of_int_inj:
  assumes "str_of_int a = str_of_int b"
  shows "a = b"
proof -
  have "dec_of_str (str_of_int a) = dec_of_str (str_of_int b)"
    by (rule arg_cong [OF assms])
  then show ?thesis
    unfolding dec_of_str_str_of_int by simp
qed

lemma decimal_fields_inj: "inj decimal_fields"
proof (rule injI)
  fix r r' :: speed_record
  assume "decimal_fields r = decimal_fields r'"
  then have "str_of_int (fst r) = str_of_int (fst r')"
    "str_of_int (fst (snd r)) = str_of_int (fst (snd r'))"
    "str_of_int (snd (snd r)) = str_of_int (snd (snd r'))"
    by (simp_all add: decimal_fields_def frame_start_of_def frame_end_of_def speed_of_def)
  then have "fst r = fst r'" "fst (snd r) = fst (snd r')" "snd (snd r) = snd (snd r')"
    by (blast dest: str_of_int_inj)+
  then show "r = r'"
    by (simp add: prod_eq_iff)
qed

section \<open>When the readers fail\<close>

lemma comprehension_isl: "isl (comprehension f xs) \<longleftrightarrow> (\<exists>x \<in> set xs. isl (f x))"
  by (induction xs) (auto split: sum.splits)

lemma ebind_isl: "isl (ebind m f) \<longleftrightarrow> (case m of Inl _ \<Rightarrow> True | Inr x \<Rightarrow> isl (f x))"
  by (cases m) (auto simp: ebind_def)

lemma unpack3_isl:
  "isl (unpack3 ops flds) \<longleftrightarrow> length flds \<noteq> 3 \<or> (\<exists>fld \<in> set flds. isl (f_of_str ops fld))"
proof -
  consider "flds = []" | a where "flds = [a]" | a b where "flds = [a, b]"
    | a b c where "flds = [a, b, c]" | a b c d rest where "flds = a # b # c # d # rest"
    by (metis list.exhaust)
  then show ?thesis
    by cases (auto simp: unpack3_def split: sum.splits)
qed

lemma store_frames_isl:
  "isl (store_frames ops speed frames d) \<longleftrightarrow> frames \<noteq> [] \<and> isl (f_round ops speed)"
  by (induction frames arbitrary: d) (auto split: sum.splits)

lemma range_up_one_Nil: "range_up a (b + 1) 1 = [] \<longleftrightarrow> b < a"
  by (subst range_up.simps) auto

lemma parse_lines_isl:
  "isl (parse_lines ops lines d) \<longleftrightarrow>
     (\<exists>line \<in> set lines.
        case parse_fields ops line of
          Inl _ \<Rightarrow> True
        | Inr (fs, fe, speed) \<Rightarrow> fs \<le> fe \<and> isl (f_round ops speed))"
proof (induction lines arbitrary: d)
  case Nil
  then show ?case by simp
next
  case (Cons line lines)
  show ?case
  proof (cases "parse_fields ops line")
    case (Inl e)
    then show ?thesis by simp
  next
    case (Inr t)
    obtain fs fe speed where t: "t = (fs, fe, speed)" by (cases t)
    show ?thesis
    proof (cases "store_frames ops speed (range_up fs (fe + 1) 1) d")
      case (Inl e)
      then have "isl (store_frames ops speed (range_up fs (fe + 1) 1) d)" by simp
      then have "fs \<le> fe \<and> isl (f_round ops speed)"
        by (simp add: store_frames_isl range_up_one_Nil)
      then show ?thesis using Inr t Inl by simp
    next
      case stored: (Inr d')
      then have "\<not> isl (store_frames ops speed (range_up fs (fe + 1) 1) d)" by simp
      then have "\<not> (fs \<le> fe \<and> isl (f_round ops speed))"
        by (auto simp: store_frames_isl range_up_one_Nil)
      then show ?thesis using Inr t stored Cons.IH [of d'] by auto
    qed
  qed
qed

lemma line_fails_iff:
  "(case parse_fields ops line of
      Inl _ \<Rightarrow> True
    | Inr (fs, fe, speed) \<Rightarrow> fs \<le> fe \<and> isl (f_round ops speed))
   \<longleftrightarrow> malformed ops line \<or> unstorable ops line"
proof (cases "unpack3 ops (split comma line)")
  case (Inl e)
  then have "isl (unpack3 ops (split comma line))" by simp
  then have "malformed ops line" by (simp add: unpack3_isl malformed_def)
  then show ?thesis using Inl by (simp add: parse_fields_def ebind_def)
next
  case (Inr t)
  then have "\<not> isl (unpack3 ops (split comma line))" by simp
  then have "\<not> malformed ops line" by (simp add: unpack3_isl malformed_def)
  then show ?thesis
    using Inr by (auto simp: parse_fields_def unstorable_def ebind_def split: sum.splits prod.splits)
qed

lemma parse_speed_data_isl:
  "isl (parse_speed_data ops blocks name) \<longleftrightarrow>
     (\<exists>tx. blocks name = Some tx
        \<and> (\<exists>line \<in> set (series_lines tx). malformed ops line \<or> unstorable ops line))"
  by (cases "blocks name") (simp_all add: parse_speed_data_def parse_lines_isl line_fails_iff)

lemma graph_series_isl:
  "isl (graph_series ops tx) \<longleftrightarrow> (\<exists>data \<in> set (frame_data_of tx). graph_unreadable ops data)"
proof -
  have "isl (graph_series ops tx) \<longleftrightarrow>
          isl (frame_numbers_of ops (frame_data_of tx)) \<or> isl (speeds_of ops (frame_data_of tx))"
    by (auto simp: graph_series_def ebind_isl split: sum.splits)
  also have "\<dots> \<longleftrightarrow> (\<exists>data \<in> set (frame_data_of tx).
                   isl (ebind (item data 1) (int_of_str ops)) \<or> isl (ebind (item data 2) (f_of_str ops)))"
    unfolding frame_numbers_of_def speeds_of_def comprehension_isl by blast
  also have "\<dots> \<longleftrightarrow> (\<exists>data \<in> set (frame_data_of tx). graph_unreadable ops data)"
  proof (rule bex_cong [OF refl])
    fix data
    show "isl (ebind (item data 1) (int_of_str ops)) \<or> isl (ebind (item data 2) (f_of_str ops))
            \<longleftrightarrow> graph_unreadable ops data"
      by (auto simp: ebind_isl graph_unreadable_def item_def split: if_splits)
  qed
  finally show ?thesis .
qed

lemma unstorable_exact: "\<not> unstorable exact_arith line"
  by (auto simp: unstorable_def exact_arith_def split: sum.splits prod.splits)


text \<open>
  Claim C6, as the code has it. Every reader splits the stripped text at the newlines,
  so a text that is empty or blank is one empty line, and an empty line between two
  records is a line; each line is split at the commas. The overlay reader
  (\<open>parse_speed_data\<close>) fails exactly when the text block exists and some line does not
  split into exactly three fields, or \<^verbatim>\<open>float\<close> fails on one of its fields
  (\<open>malformed\<close>), or a converted frame cannot be made an integer, or the speed cannot
  be rounded although the frame range of the line is not empty (\<open>unstorable\<close>); in
  exact arithmetic, exactly when some line is malformed. The graph readers fail exactly
  when some line has fewer than three fields, or \<^verbatim>\<open>int\<close> fails on its second field,
  or \<^verbatim>\<open>float\<close> fails on its third (\<open>graph_unreadable\<close>). An empty line is malformed
  and unreadable, so it makes every reader fail.
\<close>

theorem readers_fail_exactly:
  "(isl (parse_speed_data ops blocks name) \<longleftrightarrow>
      (\<exists>tx. blocks name = Some tx
         \<and> (\<exists>line \<in> set (series_lines tx). malformed ops line \<or> unstorable ops line)))
   \<and> (isl (parse_speed_data exact_arith blocks name) \<longleftrightarrow>
      (\<exists>tx. blocks name = Some tx
         \<and> (\<exists>line \<in> set (series_lines tx). malformed exact_arith line)))
   \<and> (isl (graph_series ops tx) \<longleftrightarrow>
      (\<exists>data \<in> set (frame_data_of tx). graph_unreadable ops data))
   \<and> malformed ops [] \<and> graph_unreadable ops (split comma [])
   \<and> series_lines [] = [[]]"
  by (simp add: parse_speed_data_isl graph_series_isl unstorable_exact malformed_def
      graph_unreadable_def series_lines_def strip_def)

lemmas reader_eval_defs =
  series_lines_def strip_def isspace_def newline_def comma_def frame_data_of_def
  parse_speed_data_def graph_series_def frame_numbers_of_def speeds_of_def item_def ebind_def
  parse_fields_def unpack3_def dec_of_str_def digit_val_def exact_arith_def

text \<open>
  Claim C6 as stated fails twice. An empty line causes failure: a text of two records
  with an empty line between them makes the overlay reader raise ValueError and the
  graph readers raise IndexError. And a line of four numeric fields does not fail in
  the graph readers, which read its second and third field.
\<close>

theorem readers_empty_line_counterexample:
  "series_lines (''0,1,5'' @ [newline, newline] @ ''1,2,6'' @ [newline]) = [''0,1,5'', [], ''1,2,6'']
   \<and> parse_speed_data exact_arith
        [''speed_data'' \<mapsto> ''0,1,5'' @ [newline, newline] @ ''1,2,6'' @ [newline]] ''speed_data''
       = Inl ValueError
   \<and> graph_series exact_arith (''0,1,5'' @ [newline, newline] @ ''1,2,6'' @ [newline])
       = Inl IndexError
   \<and> graph_series exact_arith ''0,1,5,9'' = Inr ([1], [5])"
  by (simp add: reader_eval_defs range_up.simps)


theorem readers_fail_exactly_witness:
  "isl (parse_speed_data exact_arith [''speed_data'' \<mapsto> ''0,,5''] ''speed_data'')
   \<and> \<not> isl (graph_series exact_arith ''0,1,5'')
   \<and> isl (graph_series exact_arith ''0,1'')"
  using readers_fail_exactly [of exact_arith "[''speed_data'' \<mapsto> ''0,,5'']" "''speed_data''" "''0,1,5''"]
    readers_fail_exactly [of exact_arith "[''speed_data'' \<mapsto> ''0,,5'']" "''speed_data''" "''0,1''"]
  by (simp add: malformed_def graph_unreadable_def reader_eval_defs)

section \<open>The overlay mapping and the frame-change handlers\<close>

lemma set_range_up_one: "set (range_up a (b + 1) 1) = {a..b}"
proof -
  have "range_up a (b + 1) 1 = map (\<lambda>k. a + int k) [0..<nat (1 + (b - a))]"
    by (simp add: range_up_closed)
  moreover have "(\<lambda>k. a + int k) ` {0..<nat (1 + (b - a))} = {a..b}"
  proof (intro set_eqI iffI)
    fix x assume "x \<in> (\<lambda>k. a + int k) ` {0..<nat (1 + (b - a))}"
    then show "x \<in> {a..b}" by auto
  next
    fix x assume "x \<in> {a..b}"
    then have "x = a + int (nat (x - a))" "nat (x - a) \<in> {0..<nat (1 + (b - a))}" by auto
    then show "x \<in> (\<lambda>k. a + int k) ` {0..<nat (1 + (b - a))}" by (rule image_eqI)
  qed
  ultimately show ?thesis by simp
qed

lemma store_frames_Inr:
  assumes "store_frames ops speed frames d = Inr d'"
  shows "(frames = [] \<and> d' = d)
         \<or> (\<exists>s. f_round ops speed = Inr s \<and> d' = (\<lambda>f. if f \<in> set frames then Some s else d f))"
  using assms
proof (induction frames arbitrary: d)
  case Nil
  then show ?case by simp
next
  case (Cons frame frames)
  from Cons.prems obtain s where s: "f_round ops speed = Inr s"
    and rest: "store_frames ops speed frames (d(frame \<mapsto> s)) = Inr d'"
    by (auto split: sum.splits)
  from Cons.IH [OF rest] s
  have "d' = (\<lambda>f. if f \<in> set (frame # frames) then Some s else d f)"
    by (auto simp: fun_eq_iff)
  with s show ?case by blast
qed

lemma last_covering_Cons:
  "last_covering (r # parsed) frame =
     (case last_covering parsed frame of
        Some r' \<Rightarrow> Some r'
      | None \<Rightarrow> if covers frame r then Some r else None)"
  by (auto simp: last_covering_def split: list.splits)

lemma parse_lines_Inr:
  assumes "parse_lines ops lines d = Inr m"
  shows "\<exists>parsed. comprehension (parse_fields ops) lines = Inr parsed
           \<and> (\<forall>frame. case last_covering parsed frame of
                 None \<Rightarrow> m frame = d frame
               | Some r \<Rightarrow> \<exists>s. f_round ops (snd (snd r)) = Inr s \<and> m frame = Some s)"
  using assms
proof (induction lines arbitrary: d)
  case Nil
  then show ?case by (simp add: last_covering_def)
next
  case (Cons line lines)
  from Cons.prems obtain fs fe speed d' where
    pf: "parse_fields ops line = Inr (fs, fe, speed)" and
    st: "store_frames ops speed (range_up fs (fe + 1) 1) d = Inr d'" and
    rest: "parse_lines ops lines d' = Inr m"
    by (auto split: sum.splits)
  from Cons.IH [OF rest] obtain parsed where
    parsed: "comprehension (parse_fields ops) lines = Inr parsed" and
    frames: "\<And>frame. case last_covering parsed frame of
                 None \<Rightarrow> m frame = d' frame
               | Some r \<Rightarrow> \<exists>s. f_round ops (snd (snd r)) = Inr s \<and> m frame = Some s"
    by blast
  have d': "if covers frame (fs, fe, speed)
            then \<exists>s. f_round ops speed = Inr s \<and> d' frame = Some s
            else d' frame = d frame" for frame
    using store_frames_Inr [OF st]
    by (auto simp: covers_def set_range_up_one range_up_one_Nil)
  have "case last_covering ((fs, fe, speed) # parsed) frame of
                 None \<Rightarrow> m frame = d frame
               | Some r \<Rightarrow> \<exists>s. f_round ops (snd (snd r)) = Inr s \<and> m frame = Some s" for frame
    using frames [of frame] d' [of frame]
    by (auto simp: last_covering_Cons split: option.splits if_splits)
  then show ?case
    using pf parsed by auto
qed

text \<open>
  Claim C9. When the overlay reader returns a mapping, the lines of the series have
  been parsed into records (two frames and a speed), and for every frame: if some
  record's inclusive range from \<open>frameStart\<close> to \<open>frameEnd\<close> holds the frame, the
  mapping gives the frame the rounded speed of the last such record (later records
  overwrite earlier ones), and the lookup of the callback returns it; if no record's
  range holds the frame, the mapping has no entry for it and the lookup returns the
  default 0. A missing text block gives no records.
\<close>

theorem overlay_mapping:
  assumes "parse_speed_data ops blocks name = Inr speed_data"
  shows "\<exists>parsed.
           (case blocks name of
              None \<Rightarrow> parsed = []
            | Some tx \<Rightarrow> comprehension (parse_fields ops) (series_lines tx) = Inr parsed)
           \<and> (\<forall>frame. case last_covering parsed frame of
                 None \<Rightarrow> speed_data frame = None \<and> get_speed speed_data frame = 0
               | Some r \<Rightarrow>
                   \<exists>s. f_round ops (snd (snd r)) = Inr s \<and> speed_data frame = Some s
                       \<and> get_speed speed_data frame = s)"
proof (cases "blocks name")
  case None
  then have "speed_data = Map.empty"
    using assms by (simp add: parse_speed_data_def)
  then show ?thesis
    using None by (simp add: last_covering_def get_speed_def)
next
  case (Some tx)
  then have "parse_lines ops (series_lines tx) Map.empty = Inr speed_data"
    using assms by (simp add: parse_speed_data_def)
  from parse_lines_Inr [OF this] obtain parsed where
    parsed: "comprehension (parse_fields ops) (series_lines tx) = Inr parsed" and
    frames: "\<And>frame. case last_covering parsed frame of
                 None \<Rightarrow> speed_data frame = None
               | Some r \<Rightarrow> \<exists>s. f_round ops (snd (snd r)) = Inr s \<and> speed_data frame = Some s"
    by blast
  have "case last_covering parsed frame of
                 None \<Rightarrow> speed_data frame = None \<and> get_speed speed_data frame = 0
               | Some r \<Rightarrow>
                   \<exists>s. f_round ops (snd (snd r)) = Inr s \<and> speed_data frame = Some s
                       \<and> get_speed speed_data frame = s" for frame
    using frames [of frame] by (auto simp: get_speed_def split: option.splits)
  then show ?thesis
    using Some parsed by auto
qed


theorem overlay_mapping_witness:
  "\<exists>m. parse_speed_data exact_arith
          [''speed_data'' \<mapsto> ''0,2,5'' @ [newline] @ ''2,4,6'' @ [newline]] ''speed_data'' = Inr m
       \<and> m 1 = Some 5 \<and> m 2 = Some 6 \<and> get_speed m 4 = 6 \<and> m 9 = None \<and> get_speed m 9 = 0"
proof -
  define tx where "tx = ''0,2,5'' @ [newline] @ ''2,4,6'' @ [newline]"
  have lines: "series_lines tx = [''0,2,5'', ''2,4,6'']"
    by (simp add: tx_def reader_eval_defs)
  have fields: "comprehension (parse_fields exact_arith) [''0,2,5'', ''2,4,6'']
                  = Inr [(0, 2, 5), (2, 4, 6)]"
    by (simp add: reader_eval_defs)
  have "\<not> isl (parse_speed_data exact_arith [''speed_data'' \<mapsto> tx] ''speed_data'')"
    unfolding parse_speed_data_isl
    by (simp add: lines unstorable_exact) (simp add: malformed_def reader_eval_defs)
  then obtain m where m: "parse_speed_data exact_arith [''speed_data'' \<mapsto> tx] ''speed_data'' = Inr m"
    by (cases "parse_speed_data exact_arith [''speed_data'' \<mapsto> tx] ''speed_data''") auto
  from overlay_mapping [OF m] obtain parsed where
    p: "comprehension (parse_fields exact_arith) (series_lines tx) = Inr parsed" and
    f: "\<And>frame. case last_covering parsed frame of
                 None \<Rightarrow> m frame = None \<and> get_speed m frame = 0
               | Some r \<Rightarrow>
                   \<exists>s. f_round exact_arith (snd (snd r)) = Inr s \<and> m frame = Some s
                       \<and> get_speed m frame = s"
    by auto
  have parsed: "parsed = [(0, 2, 5), (2, 4, 6)]"
    using p fields unfolding lines by simp
  have r: "f_round exact_arith x = Inr (round_half_even x)" for x
    by (simp add: exact_arith_def)
  have "m 1 = Some 5" "m 2 = Some 6" "get_speed m 4 = 6" "m 9 = None" "get_speed m 9 = 0"
    using f [of 1] f [of 2] f [of 4] f [of 9]
    by (simp_all add: parsed last_covering_def covers_def r round_half_even_def)
  with m show ?thesis unfolding tx_def by blast
qed

text \<open>
  Claim C10, as the code has it. After every invocation of the Display Speed operator
  in which reading the text block returns, the handler list holds exactly one handler,
  the newly registered callback, however many handlers were registered before and
  whoever registered them. When reading the text block raises, the exception
  propagates before the list is touched, and the handler list is as it was.
\<close>

theorem DisplaySpeed_handlers:
  "(\<forall>speed_data. parse_speed_data ops blocks (text_block_name p) = Inr speed_data \<longrightarrow>
       fst (DisplaySpeed_execute ops p blocks objs handlers) = FINISHED
       \<and> snd (snd (snd (DisplaySpeed_execute ops p blocks objs handlers)))
           = [Update_text p speed_data])
   \<and> (\<forall>e. parse_speed_data ops blocks (text_block_name p) = Inl e \<longrightarrow>
       fst (DisplaySpeed_execute ops p blocks objs handlers) = RAISED e
       \<and> snd (snd (snd (DisplaySpeed_execute ops p blocks objs handlers))) = handlers)"
  by (simp add: DisplaySpeed_execute_def Let_def)

text \<open>
  Claim C10 as stated fails when the text block cannot be read. With the empty text
  block that Get Speed leaves for a frame range without records, and two handlers of
  other parties registered, the operator raises ValueError and both handlers are
  still registered.
\<close>

theorem DisplaySpeed_raises_counterexample:
  "fst (DisplaySpeed_execute exact_arith default_props [''speed_data'' \<mapsto> []] Map.empty
          [Foreign (1::nat), Foreign 2]) = RAISED ValueError
   \<and> snd (snd (snd (DisplaySpeed_execute exact_arith default_props [''speed_data'' \<mapsto> []]
          Map.empty [Foreign (1::nat), Foreign 2]))) = [Foreign 1, Foreign 2]"
  by (simp add: DisplaySpeed_execute_def default_props_def Let_def reader_eval_defs)

theorem DisplaySpeed_handlers_witness:
  "parse_speed_data exact_arith Map.empty (text_block_name default_props) = Inr Map.empty
   \<and> fst (DisplaySpeed_execute exact_arith default_props Map.empty Map.empty
            [Foreign (1::nat), Foreign 2, Foreign 3]) = FINISHED
   \<and> snd (snd (snd (DisplaySpeed_execute exact_arith default_props Map.empty Map.empty
            [Foreign (1::nat), Foreign 2, Foreign 3]))) = [Update_text default_props Map.empty]
   \<and> parse_speed_data exact_arith [''speed_data'' \<mapsto> ''x''] (text_block_name default_props)
       = Inl ValueError
   \<and> snd (snd (snd (DisplaySpeed_execute exact_arith default_props [''speed_data'' \<mapsto> ''x'']
            Map.empty [Foreign (1::nat)]))) = [Foreign 1]"
proof -
  have a: "parse_speed_data exact_arith Map.empty (text_block_name default_props) = Inr Map.empty"
    by (simp add: parse_speed_data_def)
  have b: "parse_speed_data exact_arith [''speed_data'' \<mapsto> ''x''] (text_block_name default_props)
       = Inl ValueError"
    by (simp add: default_props_def reader_eval_defs)
  show ?thesis
    using a b
      DisplaySpeed_handlers [of exact_arith Map.empty default_props Map.empty
        "[Foreign (1::nat), Foreign 2, Foreign 3]"]
      DisplaySpeed_handlers [of exact_arith "[''speed_data'' \<mapsto> ''x'']" default_props Map.empty
        "[Foreign (1::nat)]"]
    by simp
qed

section \<open>Serialize, then read: the overlay reader\<close>

lemma parse_fields_exact:
  "parse_fields exact_arith (str_of_int a @ comma # str_of_int b @ comma # str_of_int c)
     = Inr (a, b, real_of_int c)"
  by (simp add: parse_fields_def unpack3_def split_body exact_arith_def dec_of_str_str_of_int
      ebind_def)

lemma store_frames_exact:
  "store_frames exact_arith speed frames d
     = Inr (\<lambda>f. if f \<in> set frames then Some (round_half_even speed) else d f)"
proof (induction frames arbitrary: d)
  case Nil
  then show ?case by simp
next
  case (Cons frame frames)
  have "f_round exact_arith speed = Inr (round_half_even speed)"
    by (simp add: exact_arith_def)
  then show ?case
    by (simp add: Cons.IH fun_eq_iff)
qed

lemma round_half_even_of_int: "round_half_even (real_of_int n) = n"
  by (simp add: round_half_even_def)

lemma parse_lines_exact:
  "parse_lines exact_arith
     (map (\<lambda>r. str_of_int (frame_start_of r) @ comma # str_of_int (frame_end_of r)
                 @ comma # str_of_int (speed_of r)) recs) d
     = Inr (\<lambda>frame. case last_covering recs frame of
                       None \<Rightarrow> d frame
                     | Some r \<Rightarrow> Some (speed_of r))"
proof (induction recs arbitrary: d)
  case Nil
  then show ?case by (simp add: last_covering_def)
next
  case (Cons r recs)
  have "parse_lines exact_arith
     (map (\<lambda>r. str_of_int (frame_start_of r) @ comma # str_of_int (frame_end_of r)
                 @ comma # str_of_int (speed_of r)) (r # recs)) d
     = Inr (\<lambda>frame. case last_covering recs frame of
                       None \<Rightarrow> if frame_start_of r \<le> frame \<and> frame \<le> frame_end_of r
                               then Some (round_half_even (real_of_int (speed_of r)))
                               else d frame
                     | Some r' \<Rightarrow> Some (speed_of r'))"
    by (simp add: parse_fields_exact store_frames_exact Cons.IH set_range_up_one
        round_half_even_of_int)
  also have "(\<lambda>frame. case last_covering recs frame of
                       None \<Rightarrow> if frame_start_of r \<le> frame \<and> frame \<le> frame_end_of r
                               then Some (round_half_even (real_of_int (speed_of r)))
                               else d frame
                     | Some r' \<Rightarrow> Some (speed_of r'))
     = (\<lambda>frame. case last_covering (r # recs) frame of
                       None \<Rightarrow> d frame
                     | Some r' \<Rightarrow> Some (speed_of r'))"
    by (auto simp: fun_eq_iff last_covering_Cons covers_def frame_start_of_def frame_end_of_def
        round_half_even_of_int split: option.splits)
  finally show ?case .
qed

lemma parse_speed_data_write_records:
  assumes "recs \<noteq> []"
  shows "parse_speed_data exact_arith [name \<mapsto> write_records recs []] name
           = Inr (\<lambda>frame. map_option speed_of (last_covering recs frame))"
proof -
  have "(\<lambda>frame. case last_covering recs frame of None \<Rightarrow> Map.empty frame | Some r \<Rightarrow> Some (speed_of r))
          = (\<lambda>frame. map_option speed_of (last_covering recs frame))"
    by (auto simp: fun_eq_iff split: option.splits)
  then show ?thesis
    by (simp add: parse_speed_data_def series_lines_write_records [OF assms] parse_lines_exact)
qed

lemma parsed_write_records:
  assumes "recs \<noteq> []"
  shows "comprehension (parse_fields exact_arith) (series_lines (write_records recs []))
           = Inr (map (\<lambda>r. (frame_start_of r, frame_end_of r, real_of_int (speed_of r))) recs)"
  unfolding series_lines_write_records [OF assms] comprehension_map
  by (intro comprehension_all_Inr) (simp add: parse_fields_exact)

text \<open>
  Claim C5, as the code has it. For every sequence of integer triples that is not
  empty, serializing each triple as the line \<open>frameStart,frameEnd,speed\<close> and a newline
  and reading the text back gives the original triples, in the same order. The
  graph readers split the text into the three decimal strings of each triple, which
  determine the triple; their frame numbers are the original \<open>frameEnd\<close>s exactly where
  \<^verbatim>\<open>int\<close> reads back the decimal string of every \<open>frameEnd\<close>, and their speeds are
  the floats of the decimal strings of the speeds; in exact arithmetic they are the
  original \<open>frameEnd\<close>s and speeds. In exact arithmetic the overlay reader
  (\<open>parse_speed_data\<close>) reads, line by line, the original \<open>frameStart\<close>, \<open>frameEnd\<close> and
  speed, and its dictionary gives every frame the original speed of the last triple
  whose range holds the frame.
\<close>

theorem serialize_then_read:
  assumes "recs \<noteq> []"
  shows "frame_data_of (write_records recs []) = map decimal_fields recs
         \<and> inj decimal_fields
         \<and> (frame_numbers_of ops (frame_data_of (write_records recs []))
                = Inr (map frame_end_of recs)
              \<longleftrightarrow> (\<forall>r \<in> set recs.
                     int_of_str ops (str_of_int (frame_end_of r)) = Inr (frame_end_of r)))
         \<and> speeds_of ops (frame_data_of (write_records recs []))
             = comprehension (\<lambda>r. f_of_str ops (str_of_int (speed_of r))) recs
         \<and> graph_series exact_arith (write_records recs [])
             = Inr (map frame_end_of recs, map (\<lambda>r. real_of_int (speed_of r)) recs)
         \<and> comprehension (parse_fields exact_arith) (series_lines (write_records recs []))
             = Inr (map (\<lambda>r. (frame_start_of r, frame_end_of r, real_of_int (speed_of r))) recs)
         \<and> parse_speed_data exact_arith [name \<mapsto> write_records recs []] name
             = Inr (\<lambda>frame. map_option speed_of (last_covering recs frame))"
  using frame_data_write_records [OF assms] decimal_fields_inj
    frame_numbers_write_records [OF assms, of ops]
    speeds_write_records [OF assms, of ops]
    graph_series_exact [OF assms]
    parsed_write_records [OF assms]
    parse_speed_data_write_records [OF assms, of name]
  by (intro conjI) assumption+

text \<open>
  Claim C5 as stated fails for the empty sequence: nothing is written, the stripped
  text splits into one empty line, and every reader raises instead of returning the
  empty sequence.
\<close>

theorem serialize_empty_counterexample:
  "write_records [] [] = []
   \<and> frame_data_of (write_records [] []) = [[[]]]
   \<and> graph_series exact_arith (write_records [] []) = Inl IndexError
   \<and> parse_speed_data exact_arith [''speed_data'' \<mapsto> write_records [] []] ''speed_data''
       = Inl ValueError"
  by (simp add: write_records_def frame_data_of_def series_lines_def strip_def
      parse_speed_data_def parse_fields_def unpack3_def exact_arith_def dec_of_str_def ebind_def
      graph_series_def frame_numbers_of_def item_def)

theorem serialize_then_read_witness:
  "[(0, 1, 5), (1, 2, - 12)] \<noteq> ([] :: speed_record list)
   \<and> write_records [(0, 1, 5), (1, 2, - 12)] [] = ''0,1,5'' @ [newline] @ ''1,2,-12'' @ [newline]
   \<and> frame_data_of (write_records [(0, 1, 5), (1, 2, - 12)] [])
       = [[''0'', ''1'', ''5''], [''1'', ''2'', ''-12'']]
   \<and> frame_numbers_of exact_arith (frame_data_of (write_records [(0, 1, 5), (1, 2, - 12)] []))
       = Inr [1, 2]
   \<and> graph_series exact_arith (write_records [(0, 1, 5), (1, 2, - 12)] [])
       = Inr ([1, 2], [5, - 12])
   \<and> comprehension (parse_fields exact_arith)
         (series_lines (write_records [(0, 1, 5), (1, 2, - 12)] []))
       = Inr [(0, 1, 5), (1, 2, - 12)]
   \<and> (\<exists>m. parse_speed_data exact_arith
              [''speed_data'' \<mapsto> write_records [(0, 1, 5), (1, 2, - 12)] []] ''speed_data'' = Inr m
          \<and> m 0 = Some 5 \<and> m 1 = Some (- 12) \<and> m 2 = Some (- 12) \<and> m 3 = None)"
proof -
  have h: "[(0, 1, 5), (1, 2, - 12)] \<noteq> ([] :: speed_record list)" by simp
  have s: "str_of_int 0 = ''0''" "str_of_int 1 = ''1''" "str_of_int 2 = ''2''"
    "str_of_int 5 = ''5''" "str_of_int (- 12) = ''-12''"
    by code_simp+
  have w: "write_records [(0, 1, 5), (1, 2, - 12)] []
             = ''0,1,5'' @ [newline] @ ''1,2,-12'' @ [newline]"
    by (simp add: write_records_def record_line_def frame_start_of_def frame_end_of_def
        speed_of_def s comma_def)
  have i: "int_of_str exact_arith (str_of_int n) = Inr n" for n
    by (simp add: exact_arith_def dec_of_str_str_of_int)
  note t = serialize_then_read [OF h, of exact_arith "''speed_data''", unfolded w]
  have "frame_data_of (''0,1,5'' @ [newline] @ ''1,2,-12'' @ [newline])
          = [[''0'', ''1'', ''5''], [''1'', ''2'', ''-12'']]"
    using t [THEN conjunct1]
    by (simp add: decimal_fields_def frame_start_of_def frame_end_of_def speed_of_def s)
  moreover have "frame_numbers_of exact_arith
          (frame_data_of (''0,1,5'' @ [newline] @ ''1,2,-12'' @ [newline])) = Inr [1, 2]"
    using t [THEN conjunct2, THEN conjunct2, THEN conjunct1]
    by (simp add: i frame_end_of_def)
  moreover have "graph_series exact_arith (''0,1,5'' @ [newline] @ ''1,2,-12'' @ [newline])
          = Inr ([1, 2], [5, - 12])"
    using t [THEN conjunct2, THEN conjunct2, THEN conjunct2, THEN conjunct2, THEN conjunct1]
    by (simp add: frame_end_of_def speed_of_def)
  moreover have "comprehension (parse_fields exact_arith)
          (series_lines (''0,1,5'' @ [newline] @ ''1,2,-12'' @ [newline]))
          = Inr [(0, 1, 5), (1, 2, - 12)]"
    using t [THEN conjunct2, THEN conjunct2, THEN conjunct2, THEN conjunct2, THEN conjunct2,
        THEN conjunct1]
    by (simp add: frame_start_of_def frame_end_of_def speed_of_def)
  moreover have "\<exists>m. parse_speed_data exact_arith
              [''speed_data'' \<mapsto> ''0,1,5'' @ [newline] @ ''1,2,-12'' @ [newline]] ''speed_data'' = Inr m
          \<and> m 0 = Some 5 \<and> m 1 = Some (- 12) \<and> m 2 = Some (- 12) \<and> m 3 = None"
    using t [THEN conjunct2, THEN conjunct2, THEN conjunct2, THEN conjunct2, THEN conjunct2,
        THEN conjunct2]
    by (simp add: last_covering_def covers_def speed_of_def)
  ultimately show ?thesis
    using h w by simp
qed

section \<open>The graph writers\<close>

lemma fold_keyframes:
  "fold (\<lambda>(frame, speed) log.
           log @ [Keyframe_insert frame speed, Keyframe_interpolation ''CONSTANT''])
        pairs calls
   = calls @ concat (map (\<lambda>(frame, speed).
                       [Keyframe_insert frame speed, Keyframe_interpolation ''CONSTANT''])
                     pairs)"
  by (induction pairs arbitrary: calls) auto

lemma filter_keyframes:
  "filter (\<lambda>c. is_Keyframe_insert c \<or> is_Keyframe_interpolation c)
     (concat (map (\<lambda>(frame, speed).
        [Keyframe_insert frame speed, Keyframe_interpolation ''CONSTANT'']) pairs))
   = concat (map (\<lambda>(frame, speed).
        [Keyframe_insert frame speed, Keyframe_interpolation ''CONSTANT'']) pairs)"
  "filter is_Keyframe_insert
     (concat (map (\<lambda>(frame, speed).
        [Keyframe_insert frame speed, Keyframe_interpolation ''CONSTANT'']) pairs))
   = map (\<lambda>(frame, speed). Keyframe_insert frame speed) pairs"
  "filter is_Nodes_new
     (concat (map (\<lambda>(frame, speed).
        [Keyframe_insert frame speed, Keyframe_interpolation ''CONSTANT'']) pairs)) = []"
  "filter is_Actions_new
     (concat (map (\<lambda>(frame, speed).
        [Keyframe_insert frame speed, Keyframe_interpolation ''CONSTANT'']) pairs)) = []"
  "filter is_Fcurves_new
     (concat (map (\<lambda>(frame, speed).
        [Keyframe_insert frame speed, Keyframe_interpolation ''CONSTANT'']) pairs)) = []"
  by (induction pairs) auto

lemma write_curve_log:
  assumes "length frame_numbers = length speeds" and "speeds \<noteq> []"
    and "filter is_Nodes_new calls = []" and "filter is_Actions_new calls = []"
    and "filter is_Fcurves_new calls = []"
    and "filter (\<lambda>c. is_Keyframe_insert c \<or> is_Keyframe_interpolation c) calls = []"
    and "filter is_Keyframe_insert calls = []"
  shows "\<exists>log. write_curve action_name graph frame_numbers speeds calls = (Inr (), log)
           \<and> writer_log action_name graph frame_numbers speeds log"
proof -
  note k = filter_keyframes [of "zip frame_numbers speeds"]
  show ?thesis
    using assms
    by (cases "animation_data graph"; cases "the (animation_data graph)")
       (simp_all add: write_curve_def writer_log_def action_used_def data_path_def fold_keyframes k
         Let_def)
qed

lemma series_lines_not_Nil: "series_lines tx \<noteq> []"
  by (simp add: series_lines_def split_not_Nil)

lemma parsed_lengths:
  assumes "frame_numbers_of ops (frame_data_of tx) = Inr frame_numbers"
    and "speeds_of ops (frame_data_of tx) = Inr speeds"
  shows "length frame_numbers = length speeds" and "speeds \<noteq> []"
proof -
  have a: "length frame_numbers = length (frame_data_of tx)"
    using assms(1) comprehension_Inr unfolding frame_numbers_of_def by blast
  have b: "length speeds = length (frame_data_of tx)"
    using assms(2) comprehension_Inr unfolding speeds_of_def by blast
  show "length frame_numbers = length speeds" using a b by simp
  have "frame_data_of tx \<noteq> []"
    by (simp add: frame_data_of_def series_lines_not_Nil)
  then show "speeds \<noteq> []" using b by auto
qed

text \<open>
  Claim C8. For every successfully parsed series, that is, whenever the frame numbers
  and the speeds of the lines of the text block have been converted, each Graph Writer
  variant returns \<open>FINISHED\<close> (the shader variant for an active material, the
  geometry variant for the node group of the first \<open>NODES\<close> modifier), and the calls
  it has made on the graph are these: exactly one \<^verbatim>\<open>nodes.new\<close>, of a
  \<open>ShaderNodeValue\<close>; an \<^verbatim>\<open>actions.new\<close> only when the graph had no action, none
  when it had one; exactly one \<^verbatim>\<open>fcurves.new\<close>, in the action the graph had or else
  in the new one, with the data path \<open>nodes["N"].outputs[0].default_value\<close> of the first
  output of the new node, whose name from the host is \<open>N\<close>; and for
  every record, in order, one \<^verbatim>\<open>keyframe_points.insert\<close> at the record's frame with
  the record's speed, followed by setting the interpolation to \<open>CONSTANT\<close>.
\<close>

theorem graph_writer_calls:
  assumes "blocks (text_block_name p) = Some tx"
    and "frame_numbers_of ops (frame_data_of tx) = Inr frame_numbers"
    and "speeds_of ops (frame_data_of tx) = Inr speeds"
  shows "(\<exists>calls. TransferToShaderEditor_execute ops p blocks (Some (Some graph))
                    = (FINISHED, [INFO ''Speed data transferred to Shader Editor''], calls)
                 \<and> writer_log ''SpeedAction'' graph frame_numbers speeds calls)
         \<and> (first_nodes_modifier modifiers = Some (kind, Some graph) \<longrightarrow>
              (\<exists>calls. TransferToGeoNodes_execute ops p blocks (Some modifiers)
                    = (FINISHED, [INFO ''Speed data transferred to Geometry Nodes''], calls)
                 \<and> writer_log ''GeoNodesSpeedAction'' graph frame_numbers speeds calls))"
proof -
  note len = parsed_lengths [OF assms(2,3)]
  obtain log1 where log1:
    "write_curve ''SpeedAction'' graph frame_numbers speeds [Use_nodes] = (Inr (), log1)"
    "writer_log ''SpeedAction'' graph frame_numbers speeds log1"
    using write_curve_log [OF len, of "[Use_nodes]" "''SpeedAction''" graph] by auto
  obtain log2 where log2:
    "write_curve ''GeoNodesSpeedAction'' graph frame_numbers speeds [] = (Inr (), log2)"
    "writer_log ''GeoNodesSpeedAction'' graph frame_numbers speeds log2"
    using write_curve_log [OF len, of "[]" "''GeoNodesSpeedAction''" graph] by auto
  show ?thesis
    using assms log1 log2
    by (simp add: TransferToShaderEditor_execute_def TransferToGeoNodes_execute_def Let_def)
qed


theorem graph_writer_calls_witness:
  "frame_numbers_of exact_arith (frame_data_of ''0,1,5'') = Inr [1]
   \<and> speeds_of exact_arith (frame_data_of ''0,1,5'') = Inr [5]
   \<and> (\<exists>calls. TransferToShaderEditor_execute exact_arith default_props
                  [''speed_data'' \<mapsto> ''0,1,5'']
                  (Some (Some \<lparr>animation_data = Some (Some ''Act''),
                               named = (\<lambda>n. n @ ''.001'')\<rparr>))
                = (FINISHED, [INFO ''Speed data transferred to Shader Editor''], calls)
              \<and> filter is_Nodes_new calls = [Nodes_new ''ShaderNodeValue'']
              \<and> filter is_Actions_new calls = []
              \<and> filter is_Fcurves_new calls
                  = [Fcurves_new (Existing_action ''Act'')
                       (''nodes['' @ [CHR 0x22] @ ''Speed Value.001'' @ [CHR 0x22]
                          @ ''].outputs[0].default_value'')]
              \<and> filter (\<lambda>c. is_Keyframe_insert c \<or> is_Keyframe_interpolation c) calls
                  = [Keyframe_insert 1 5, Keyframe_interpolation ''CONSTANT''])
   \<and> first_nodes_modifier
         [(''SUBSURF'', None),
          (''NODES'', Some \<lparr>animation_data = None, named = (\<lambda>n. n @ ''.001'')\<rparr>)]
       = Some (''NODES'', Some \<lparr>animation_data = None, named = (\<lambda>n. n @ ''.001'')\<rparr>)
   \<and> (\<exists>calls. TransferToGeoNodes_execute exact_arith default_props
                  [''speed_data'' \<mapsto> ''0,1,5'']
                  (Some [(''SUBSURF'', None),
                         (''NODES'', Some \<lparr>animation_data = None,
                                           named = (\<lambda>n. n @ ''.001'')\<rparr>)])
                = (FINISHED, [INFO ''Speed data transferred to Geometry Nodes''], calls)
              \<and> filter is_Nodes_new calls = [Nodes_new ''ShaderNodeValue'']
              \<and> filter is_Actions_new calls = [Actions_new ''GeoNodesSpeedAction'']
              \<and> filter is_Fcurves_new calls
                  = [Fcurves_new (New_action ''GeoNodesSpeedAction'')
                       (''nodes['' @ [CHR 0x22] @ ''Speed Value.001'' @ [CHR 0x22]
                          @ ''].outputs[0].default_value'')]
              \<and> filter (\<lambda>c. is_Keyframe_insert c \<or> is_Keyframe_interpolation c) calls
                  = [Keyframe_insert 1 5, Keyframe_interpolation ''CONSTANT''])"
proof -
  define shader where
    "shader = \<lparr>animation_data = Some (Some ''Act''), named = (\<lambda>n. n @ ''.001'')\<rparr>"
  define geo where
    "geo = \<lparr>animation_data = None :: string option option, named = (\<lambda>n. n @ ''.001'')\<rparr>"
  have a: "text_block_name default_props = ''speed_data''"
    by (simp add: default_props_def)
  have b: "[''speed_data'' \<mapsto> ''0,1,5''] (text_block_name default_props) = Some ''0,1,5''"
    by (simp add: a)
  have f: "frame_numbers_of exact_arith (frame_data_of ''0,1,5'') = Inr [1]"
    by (simp add: reader_eval_defs)
  have s: "speeds_of exact_arith (frame_data_of ''0,1,5'') = Inr [5]"
    by (simp add: reader_eval_defs)
  have m: "first_nodes_modifier [(''SUBSURF'', None), (''NODES'', Some geo)]
             = Some (''NODES'', Some geo)"
    by (simp add: first_nodes_modifier_def)
  from graph_writer_calls [of "[''speed_data'' \<mapsto> ''0,1,5'']" default_props "''0,1,5''"
      exact_arith "[1]" "[5]" shader "[]" "[]", OF b f s]
  obtain calls1 where calls1:
    "TransferToShaderEditor_execute exact_arith default_props [''speed_data'' \<mapsto> ''0,1,5'']
        (Some (Some shader))
      = (FINISHED, [INFO ''Speed data transferred to Shader Editor''], calls1)"
    "writer_log ''SpeedAction'' shader [1] [5 :: real] calls1"
    by blast
  from graph_writer_calls [of "[''speed_data'' \<mapsto> ''0,1,5'']" default_props "''0,1,5''"
      exact_arith "[1]" "[5]" geo "[(''SUBSURF'', None), (''NODES'', Some geo)]" "''NODES''",
      OF b f s] m
  obtain calls2 where calls2:
    "TransferToGeoNodes_execute exact_arith default_props [''speed_data'' \<mapsto> ''0,1,5'']
        (Some [(''SUBSURF'', None), (''NODES'', Some geo)])
      = (FINISHED, [INFO ''Speed data transferred to Geometry Nodes''], calls2)"
    "writer_log ''GeoNodesSpeedAction'' geo [1] [5 :: real] calls2"
    by blast
  have "\<exists>calls. TransferToShaderEditor_execute exact_arith default_props
                  [''speed_data'' \<mapsto> ''0,1,5''] (Some (Some shader))
                = (FINISHED, [INFO ''Speed data transferred to Shader Editor''], calls)
              \<and> filter is_Nodes_new calls = [Nodes_new ''ShaderNodeValue'']
              \<and> filter is_Actions_new calls = []
              \<and> filter is_Fcurves_new calls
                  = [Fcurves_new (Existing_action ''Act'')
                       (''nodes['' @ [CHR 0x22] @ ''Speed Value.001'' @ [CHR 0x22]
                          @ ''].outputs[0].default_value'')]
              \<and> filter (\<lambda>c. is_Keyframe_insert c \<or> is_Keyframe_interpolation c) calls
                  = [Keyframe_insert 1 5, Keyframe_interpolation ''CONSTANT'']"
    using calls1 by (auto simp: writer_log_def action_used_def shader_def)
  moreover have "\<exists>calls. TransferToGeoNodes_execute exact_arith default_props
                  [''speed_data'' \<mapsto> ''0,1,5'']
                  (Some [(''SUBSURF'', None), (''NODES'', Some geo)])
                = (FINISHED, [INFO ''Speed data transferred to Geometry Nodes''], calls)
              \<and> filter is_Nodes_new calls = [Nodes_new ''ShaderNodeValue'']
              \<and> filter is_Actions_new calls = [Actions_new ''GeoNodesSpeedAction'']
              \<and> filter is_Fcurves_new calls
                  = [Fcurves_new (New_action ''GeoNodesSpeedAction'')
                       (''nodes['' @ [CHR 0x22] @ ''Speed Value.001'' @ [CHR 0x22]
                          @ ''].outputs[0].default_value'')]
              \<and> filter (\<lambda>c. is_Keyframe_insert c \<or> is_Keyframe_interpolation c) calls
                  = [Keyframe_insert 1 5, Keyframe_interpolation ''CONSTANT'']"
    using calls2 by (auto simp: writer_log_def action_used_def geo_def)
  ultimately show ?thesis
    using f s m unfolding shader_def geo_def by blast
qed

end
